theory Spec2Isabelle
  imports Main
begin

section \<open>The input template processor of the context engine\<close>

text \<open>
  A shallow embedding of \<^verbatim>\<open>InputTemplateProcessor.doProcess\<close>
  (\<^verbatim>\<open>packages/context-engine/src/processors/InputTemplate.ts\<close>).

  The processor works on JavaScript objects that are shared by reference: the context
  holds a reference to an array of message objects and a reference to a metadata
  object, and the code writes into the array (\<^verbatim>\<open>messages[i] = ...\<close>) and into the
  metadata object (\<^verbatim>\<open>metadata.inputTemplateProcessed = ...\<close>). Several properties
  of the processor are about which objects these writes reach, so the embedding has an
  explicit store. Logging (\<^verbatim>\<open>log(...)\<close>) has no effect on the result and is left
  out.
\<close>

subsection \<open>Values, messages, contexts and the store\<close>

text \<open>
  A JavaScript value, as far as the processor looks at one: the content of a message is
  either a string or something else (\<^verbatim>\<open>typeof message.content !== 'string'\<close>), and a
  metadata entry is any value.
\<close>

datatype jsvalue =
    JUndefined
  | JNull
  | JBool bool
  | JNum int
  | JStr string
  | JArr "jsvalue list"
  | JObj "(string \<times> jsvalue) list"

text \<open>
  A message object. The processor reads \<open>id\<close> (for logging only), \<open>role\<close> and
  \<open>content\<close>; every other field of a message lives in the record's extension and is
  carried along by the spread \<^verbatim>\<open>{ ...message, content: processedContent }\<close>.
\<close>

record message =
  msg_id :: string
  role :: string
  content :: jsvalue

type_synonym ref = nat

text \<open>
  The store: message objects, arrays of references to message objects, and metadata
  objects (maps from property names to values). A reference is an index into the
  respective list, so an allocation appends and returns the old length: it never reuses
  the address of a living object.
\<close>

record 'm store =
  message_objs :: "'m message_scheme list"
  array_objs :: "ref list list"
  metadata_objs :: "(string \<rightharpoonup> jsvalue) list"

text \<open>
  A pipeline context: a reference to the array of messages and a reference to the
  metadata object. Any further field of a context lives in the record's extension.
\<close>

record PipelineContext =
  messages :: ref
  metadata :: ref

record InputTemplateConfig =
  inputTemplate :: "string option"

text \<open>
  Dereferencing. In JavaScript a reference always points to an object; so that the
  functions below are total, a message reference outside the store reads as
  \<^verbatim>\<open>undefined\<close> (\<open>None\<close>), an array reference outside the store as the empty array and
  a metadata reference outside the store as the empty object.
\<close>

definition msg_at :: "'m store \<Rightarrow> ref \<Rightarrow> 'm message_scheme option" where
  "msg_at h r = (if r < length (message_objs h) then Some (message_objs h ! r) else None)"

definition arr_at :: "'m store \<Rightarrow> ref \<Rightarrow> ref list" where
  "arr_at h r = (if r < length (array_objs h) then array_objs h ! r else [])"

definition meta_at :: "'m store \<Rightarrow> ref \<Rightarrow> (string \<rightharpoonup> jsvalue)" where
  "meta_at h r = (if r < length (metadata_objs h) then metadata_objs h ! r else Map.empty)"

text \<open>Allocation of a new object: the store grows by one, the new reference is returned.\<close>

definition new_message :: "'m store \<Rightarrow> 'm message_scheme \<Rightarrow> 'm store \<times> ref" where
  "new_message h m = (h\<lparr>message_objs := message_objs h @ [m]\<rparr>, length (message_objs h))"

definition new_array :: "'m store \<Rightarrow> ref list \<Rightarrow> 'm store \<times> ref" where
  "new_array h xs = (h\<lparr>array_objs := array_objs h @ [xs]\<rparr>, length (array_objs h))"

definition new_metadata :: "'m store \<Rightarrow> (string \<rightharpoonup> jsvalue) \<Rightarrow> 'm store \<times> ref" where
  "new_metadata h md = (h\<lparr>metadata_objs := metadata_objs h @ [md]\<rparr>, length (metadata_objs h))"

text \<open>
  In-place writes: \<^verbatim>\<open>array[i] = r\<close> and \<^verbatim>\<open>object[key] = v\<close>. The processor only
  writes to an index inside the array, where \<open>list_update\<close> is the assignment.
\<close>

definition array_set :: "'m store \<Rightarrow> ref \<Rightarrow> nat \<Rightarrow> ref \<Rightarrow> 'm store" where
  "array_set h a i r = h\<lparr>array_objs := (array_objs h)[a := (arr_at h a)[i := r]]\<rparr>"

definition metadata_set :: "'m store \<Rightarrow> ref \<Rightarrow> string \<Rightarrow> jsvalue \<Rightarrow> 'm store" where
  "metadata_set h r k v = h\<lparr>metadata_objs := (metadata_objs h)[r := (meta_at h r)(k \<mapsto> v)]\<rparr>"

text \<open>What a context shows: its sequence of message slots and its metadata object.\<close>

definition slots :: "'m store \<Rightarrow> 'c PipelineContext_scheme \<Rightarrow> ref list" where
  "slots h c = arr_at h (messages c)"

definition messagesOf :: "'m store \<Rightarrow> 'c PipelineContext_scheme \<Rightarrow> 'm message_scheme option list" where
  "messagesOf h c = map (msg_at h) (slots h c)"

definition metadataOf :: "'m store \<Rightarrow> 'c PipelineContext_scheme \<Rightarrow> (string \<rightharpoonup> jsvalue)" where
  "metadataOf h c = meta_at h (metadata c)"

subsection \<open>The base processor\<close>

text \<open>
  Modelled from the spec: \<^verbatim>\<open>BaseProcessor.cloneContext\<close> (\<^verbatim>\<open>../base/BaseProcessor\<close>)
  is not among the sources. The specification describes it as producing "a structurally
  independent copy suitable for safe mutation (shallow copy of the message sequence
  container plus a fresh metadata mapping; message values inside are shared until
  individually replaced)": a new array with the same message references, a new metadata
  object with the same entries, and a context that keeps every other field.
\<close>

definition cloneContext ::
  "'m store \<Rightarrow> 'c PipelineContext_scheme \<Rightarrow> 'm store \<times> 'c PipelineContext_scheme" where
  "cloneContext h context =
     (let (h1, a) = new_array h (arr_at h (messages context));
          (h2, md) = new_metadata h1 (meta_at h1 (metadata context))
      in (h2, context\<lparr>messages := a, metadata := md\<rparr>))"

text \<open>
  Modelled from the spec: \<^verbatim>\<open>BaseProcessor.markAsExecuted\<close> is not among the sources.
  The specification describes it as stamping "bookkeeping (e.g., an execution marker in
  metadata) indicating this stage ran". The marker is modelled as the entry \<open>true\<close> in
  the metadata object of the context it is given, under the name of the stage
  (\<^verbatim>\<open>readonly name = 'InputTemplateProcessor'\<close>).
\<close>

definition processor_name :: string where
  "processor_name = ''InputTemplateProcessor''"

definition markAsExecuted ::
  "'m store \<Rightarrow> 'c PipelineContext_scheme \<Rightarrow> 'm store \<times> 'c PipelineContext_scheme" where
  "markAsExecuted h context =
     (metadata_set h (metadata context) processor_name (JBool True), context)"

definition isMarkedExecuted :: "'m store \<Rightarrow> 'c PipelineContext_scheme \<Rightarrow> bool" where
  "isMarkedExecuted h context = (metadataOf h context processor_name = Some (JBool True))"

subsection \<open>The templating engine\<close>

text \<open>
  \<^verbatim>\<open>template\<close> of \<^verbatim>\<open>es-toolkit/compat\<close> is a library function. The processor calls
  \<^verbatim>\<open>template(inputTemplate, { interpolate: /{{\s*(text)\s*}}/g })\<close>, which either throws
  or returns a compiled function; the compiled function, called with \<^verbatim>\<open>{ text: s }\<close>,
  either throws or returns a string. The embedding of the processor takes this call as
  a parameter of type \<open>engine\<close>, so what is proved of the processor holds for every
  behaviour of the library.
\<close>

datatype js_error = JsError string

type_synonym compiled = "string \<Rightarrow> js_error + string"
type_synonym engine = "string \<Rightarrow> js_error + compiled"

subsection \<open>The processor\<close>

text \<open>
  The scan for the last user message:
  \<^verbatim>\<open>
  let lastUserIndex = -1;
  for (let i = clonedContext.messages.length - 1; i >= 0; i--) {
    if (clonedContext.messages[i]?.role === 'user') { lastUserIndex = i; break; }
  }
  \<close>
  \<open>isUser h r\<close> is the test \<^verbatim>\<open>messages[i]?.role === 'user'\<close> on the slot's reference:
  a slot without a message object is not a user message.
\<close>

definition isUser :: "'m store \<Rightarrow> ref \<Rightarrow> bool" where
  "isUser h r = (case msg_at h r of None \<Rightarrow> False | Some m \<Rightarrow> role m = ''user'')"

function scanLastUser :: "'m store \<Rightarrow> ref list \<Rightarrow> int \<Rightarrow> int" where
  "scanLastUser h ms i =
     (if i \<ge> 0
      then (if isUser h (ms ! nat i) then i else scanLastUser h ms (i - 1))
      else -1)"
  by pat_completeness auto
termination
  by (relation "measure (\<lambda>(h, ms, i). nat (i + 1))") auto

declare scanLastUser.simps [simp del]

text \<open>\<^verbatim>\<open>typeof content === 'string'\<close>, giving the string.\<close>

fun asString :: "jsvalue \<Rightarrow> string option" where
  "asString (JStr s) = Some s"
| "asString _ = None"

definition processedKey :: string where
  "processedKey = ''inputTemplateProcessed''"

text \<open>
  The body of the outer \<^verbatim>\<open>try\<close> block (lines 40 to 82), from the compilation of the
  template to the end of the work on the last user message. It returns the store and
  \<^verbatim>\<open>processedCount\<close>, or the exception that leaves the block. The two calls that can
  throw, the compilation and the call of the compiled function, come before every
  write of the block, so an exception leaves the store as it was. The inner
  \<^verbatim>\<open>try\<close>/\<^verbatim>\<open>catch\<close> (lines 65 to 80) keeps the original message when the compiled
  function throws. The slot at \<^verbatim>\<open>lastUserIndex\<close> holds a message object, since the
  scan read its role; the model keeps the other case as the \<^verbatim>\<open>TypeError\<close> that
  \<^verbatim>\<open>message.content\<close> would throw inside the block.
\<close>

definition applyTemplate ::
  "engine \<Rightarrow> string \<Rightarrow> 'm store \<Rightarrow> 'c PipelineContext_scheme \<Rightarrow> js_error + ('m store \<times> nat)" where
  "applyTemplate template tpl h clonedContext =
     (case template tpl of
        Inl error \<Rightarrow> Inl error
      | Inr compiler \<Rightarrow>
          (let ms = arr_at h (messages clonedContext);
               lastUserIndex = scanLastUser h ms (int (length ms) - 1)
           in if lastUserIndex \<ge> 0
              then (case msg_at h (ms ! nat lastUserIndex) of
                      None \<Rightarrow> Inl (JsError ''TypeError'')
                    | Some message \<Rightarrow>
                        (case asString (content message) of
                           None \<Rightarrow> Inr (h, 0)
                         | Some originalContent \<Rightarrow>
                             (case compiler originalContent of
                                Inl error \<Rightarrow> Inr (h, 0)
                              | Inr processedContent \<Rightarrow>
                                  if processedContent \<noteq> originalContent
                                  then (let (h1, r) = new_message h
                                                (message\<lparr>content := JStr processedContent\<rparr>)
                                        in Inr (array_set h1 (messages clonedContext)
                                                  (nat lastUserIndex) r, 1))
                                  else Inr (h, 0))))
              else Inr (h, 0)))"

text \<open>
  \<^verbatim>\<open>doProcess\<close>. The guard \<^verbatim>\<open>!this.config.inputTemplate\<close> holds when the template is
  absent and when it is the empty string. The outer \<^verbatim>\<open>catch\<close> (lines 83 to 86) turns an
  exception of the block into \<^verbatim>\<open>processedCount = 0\<close>. The result is \<open>Inr\<close> of the
  returned store and context; \<open>Inl\<close> would be an exception that leaves \<^verbatim>\<open>doProcess\<close>.
\<close>

definition doProcess ::
  "engine \<Rightarrow> InputTemplateConfig \<Rightarrow> 'm store \<Rightarrow> 'c PipelineContext_scheme
     \<Rightarrow> js_error + ('m store \<times> 'c PipelineContext_scheme)" where
  "doProcess template config h context =
     (let (h0, clonedContext) = cloneContext h context
      in case inputTemplate config of
           None \<Rightarrow> Inr (markAsExecuted h0 clonedContext)
         | Some t \<Rightarrow>
             if t = ''''
             then Inr (markAsExecuted h0 clonedContext)
             else (let (h1, processedCount) =
                         (case applyTemplate template t h0 clonedContext of
                            Inl error \<Rightarrow> (h0, 0)
                          | Inr res \<Rightarrow> res);
                       h2 = metadata_set h1 (metadata clonedContext) processedKey
                              (JNum (int processedCount))
                   in Inr (markAsExecuted h2 clonedContext)))"

subsection \<open>Notions used in the statements\<close>

text \<open>
  \<open>lastUserAt h ms i\<close>: slot \<open>i\<close> of the message sequence \<open>ms\<close> holds a user message
  and no later slot does, that is, \<open>i\<close> is the position of the last user message.
\<close>

definition lastUserAt :: "'m store \<Rightarrow> ref list \<Rightarrow> nat \<Rightarrow> bool" where
  "lastUserAt h ms i =
     (i < length ms \<and> isUser h (ms ! i) \<and> (\<forall>j\<in>{i + 1..<length ms}. \<not> isUser h (ms ! j)))"

text \<open>
  A template is configured when the guard of line 32, \<^verbatim>\<open>!this.config.inputTemplate\<close>,
  is false: the template is present and is not the empty string.
\<close>

definition templateConfigured :: "InputTemplateConfig \<Rightarrow> bool" where
  "templateConfigured config = (case inputTemplate config of None \<Rightarrow> False | Some t \<Rightarrow> t \<noteq> '''')"

text \<open>
  A context is valid in a store when its references point to objects of the store, as
  every reference of a running program does.
\<close>

definition validContext :: "'m store \<Rightarrow> 'c PipelineContext_scheme \<Rightarrow> bool" where
  "validContext h c =
     (messages c < length (array_objs h) \<and> metadata c < length (metadata_objs h) \<and>
      (\<forall>r\<in>set (arr_at h (messages c)). r < length (message_objs h)))"

subsection \<open>A model of the interpolation\<close>

text \<open>
  Modelled from the spec: the library function \<^verbatim>\<open>template\<close> (\<^verbatim>\<open>es-toolkit/compat\<close>)
  is not among the sources. The specification describes the compilation "against a
  fixed single-parameter interpolation grammar: the only recognized placeholder is
  \<^verbatim>\<open>text\<close> (matched via a pattern equivalent to \<^verbatim>\<open>{{ optional-whitespace text
  optional-whitespace }}\<close>, case-sensitive, occurring zero or more times)", and the
  compiled function as invoked "with \<^verbatim>\<open>text\<close> bound to the message's current
  content". The model replaces every match of the pattern of line 42,
  \<^verbatim>\<open>/{{\s*(text)\s*}}/g\<close>, from left to right, by the bound string and keeps every
  other character; it never throws. Strings are sequences of characters below 256, of
  which \<^verbatim>\<open>\s\<close> matches the seven below. The model serves the concrete examples; the
  properties of the processor are proved for every engine.
\<close>

definition isSpace :: "char \<Rightarrow> bool" where
  "isSpace c = (c \<in> set [CHR '' '', CHR 0x09, CHR 0x0A, CHR 0x0B, CHR 0x0C, CHR 0x0D, CHR 0xA0])"

fun dropPrefix :: "string \<Rightarrow> string \<Rightarrow> string option" where
  "dropPrefix [] s = Some s"
| "dropPrefix (p # ps) [] = None"
| "dropPrefix (p # ps) (c # cs) = (if p = c then dropPrefix ps cs else None)"

definition matchPlaceholder :: "string \<Rightarrow> nat option" where
  "matchPlaceholder s =
     (case dropPrefix ''{{'' s of
        None \<Rightarrow> None
      | Some s1 \<Rightarrow>
          (case dropPrefix ''text'' (dropWhile isSpace s1) of
             None \<Rightarrow> None
           | Some s2 \<Rightarrow>
               (case dropPrefix ''}}'' (dropWhile isSpace s2) of
                  None \<Rightarrow> None
                | Some rest \<Rightarrow> Some (length s - length rest))))"

fun interpolateFrom :: "nat \<Rightarrow> string \<Rightarrow> string \<Rightarrow> string" where
  "interpolateFrom k [] v = []"
| "interpolateFrom (Suc k) (c # cs) v = interpolateFrom k cs v"
| "interpolateFrom 0 (c # cs) v =
     (case matchPlaceholder (c # cs) of
        Some n \<Rightarrow> v @ interpolateFrom (n - 1) cs v
      | None \<Rightarrow> c # interpolateFrom 0 cs v)"

definition textTemplate :: engine where
  "textTemplate tpl = Inr (\<lambda>s. Inr (interpolateFrom 0 tpl s))"

subsection \<open>Example conversations\<close>

text \<open>
  A conversation of four messages, the last of them a user message with the given
  content, with one metadata entry; and a conversation without a user message.
\<close>

definition systemMessage :: message where
  "systemMessage = \<lparr>msg_id = ''m0'', role = ''system'', content = JStr ''Be brief.''\<rparr>"

definition userMessage :: "string \<Rightarrow> jsvalue \<Rightarrow> message" where
  "userMessage i c = \<lparr>msg_id = i, role = ''user'', content = c\<rparr>"

definition assistantMessage :: message where
  "assistantMessage = \<lparr>msg_id = ''m2'', role = ''assistant'', content = JStr ''Hello.''\<rparr>"

definition conversation :: "jsvalue \<Rightarrow> unit store" where
  "conversation c =
     \<lparr>message_objs = [systemMessage, userMessage ''m1'' (JStr ''first''), assistantMessage,
                      userMessage ''m3'' c],
      array_objs = [[0, 1, 2, 3]],
      metadata_objs = [[''traceId'' \<mapsto> JStr ''t1'']]\<rparr>"

definition callerContext :: PipelineContext where
  "callerContext = \<lparr>messages = 0, metadata = 0\<rparr>"

definition quietConversation :: "unit store" where
  "quietConversation =
     \<lparr>message_objs = [systemMessage, assistantMessage],
      array_objs = [[0, 1]],
      metadata_objs = [Map.empty]\<rparr>"

text \<open>Two engines that fail: one at compilation, one at application.\<close>

definition failingCompile :: engine where
  "failingCompile tpl = Inl (JsError ''SyntaxError'')"

definition failingApply :: engine where
  "failingApply tpl = Inr (\<lambda>s. Inl (JsError ''ReferenceError''))"

section \<open>Properties of the scan\<close>

lemma scan_found:
  "0 \<le> scanLastUser h ms i \<Longrightarrow>
     scanLastUser h ms i \<le> i \<and> isUser h (ms ! nat (scanLastUser h ms i)) \<and>
     (\<forall>j. scanLastUser h ms i < j \<and> j \<le> i \<longrightarrow> \<not> isUser h (ms ! nat j))"
proof (induction h ms i rule: scanLastUser.induct)
  case (1 h ms i)
  show ?case
  proof (cases "i \<ge> 0")
    case False
    with "1.prems" show ?thesis by (simp add: scanLastUser.simps)
  next
    case nonneg: True
    show ?thesis
    proof (cases "isUser h (ms ! nat i)")
      case True
      with nonneg show ?thesis by (auto simp add: scanLastUser.simps)
    next
      case False
      with nonneg have eq: "scanLastUser h ms i = scanLastUser h ms (i - 1)"
        by (simp add: scanLastUser.simps)
      with "1.IH" nonneg False "1.prems" have
        IH: "scanLastUser h ms (i - 1) \<le> i - 1 \<and> isUser h (ms ! nat (scanLastUser h ms (i - 1))) \<and>
     (\<forall>j. scanLastUser h ms (i - 1) < j \<and> j \<le> i - 1 \<longrightarrow> \<not> isUser h (ms ! nat j))"
        by simp
      show ?thesis unfolding eq using IH False
      proof (intro conjI allI impI)
        fix j assume "scanLastUser h ms (i - 1) < j \<and> j \<le> i"
        then have "j = i \<or> j \<le> i - 1" by arith
        then show "\<not> isUser h (ms ! nat j)"
          using IH False \<open>scanLastUser h ms (i - 1) < j \<and> j \<le> i\<close> by auto
      qed (use IH in auto)
    qed
  qed
qed


lemma scan_none:
  "scanLastUser h ms i < 0 \<Longrightarrow>
     scanLastUser h ms i = -1 \<and> (\<forall>j. 0 \<le> j \<and> j \<le> i \<longrightarrow> \<not> isUser h (ms ! nat j))"
proof (induction h ms i rule: scanLastUser.induct)
  case (1 h ms i)
  show ?case
  proof (cases "i \<ge> 0")
    case False
    then show ?thesis by (auto simp add: scanLastUser.simps)
  next
    case nonneg: True
    have notUser: "\<not> isUser h (ms ! nat i)"
      using "1.prems" nonneg by (auto simp add: scanLastUser.simps split: if_splits)
    with nonneg have eq: "scanLastUser h ms i = scanLastUser h ms (i - 1)"
      by (simp add: scanLastUser.simps)
    with "1.IH" nonneg notUser "1.prems" have
      IH: "scanLastUser h ms (i - 1) = -1 \<and> (\<forall>j. 0 \<le> j \<and> j \<le> i - 1 \<longrightarrow> \<not> isUser h (ms ! nat j))"
      by simp
    show ?thesis unfolding eq
    proof (intro conjI allI impI)
      fix j assume j: "0 \<le> j \<and> j \<le> i"
      then have "j = i \<or> j \<le> i - 1" by arith
      then show "\<not> isUser h (ms ! nat j)" using IH notUser j by auto
    qed (use IH in auto)
  qed
qed

lemma scan_lastUserAt:
  assumes "lastUserAt h ms k"
  shows "scanLastUser h ms (int (length ms) - 1) = int k"
proof -
  let ?r = "scanLastUser h ms (int (length ms) - 1)"
  from assms have k: "k < length ms" "isUser h (ms ! k)"
    and later: "\<And>j. k < j \<Longrightarrow> j < length ms \<Longrightarrow> \<not> isUser h (ms ! j)"
    by (auto simp: lastUserAt_def)
  have nonneg: "0 \<le> ?r"
  proof (rule ccontr)
    assume "\<not> 0 \<le> ?r"
    then have "\<forall>j. 0 \<le> j \<and> j \<le> int (length ms) - 1 \<longrightarrow> \<not> isUser h (ms ! nat j)"
      using scan_none [of h ms "int (length ms) - 1"] by simp
    then have "0 \<le> int k \<and> int k \<le> int (length ms) - 1 \<longrightarrow> \<not> isUser h (ms ! nat (int k))" ..
    with k show False by simp
  qed
  from scan_found [OF nonneg] have
    le: "?r \<le> int (length ms) - 1" and user: "isUser h (ms ! nat ?r)"
    and after: "\<And>j. ?r < j \<Longrightarrow> j \<le> int (length ms) - 1 \<Longrightarrow> \<not> isUser h (ms ! nat j)"
    by auto
  have "\<not> ?r < int k"
  proof
    assume "?r < int k"
    then have "\<not> isUser h (ms ! nat (int k))" using after [of "int k"] k(1) by auto
    with k(2) show False by simp
  qed
  moreover have "\<not> int k < ?r"
  proof
    assume "int k < ?r"
    then have "k < nat ?r" "nat ?r < length ms" using le nonneg by auto
    then have "\<not> isUser h (ms ! nat ?r)" by (rule later)
    with user show False by simp
  qed
  ultimately show ?thesis by simp
qed

lemma scan_noUser:
  assumes "\<forall>r\<in>set ms. \<not> isUser h r"
  shows "scanLastUser h ms (int (length ms) - 1) = -1"
proof -
  let ?r = "scanLastUser h ms (int (length ms) - 1)"
  have "\<not> 0 \<le> ?r"
  proof
    assume nonneg: "0 \<le> ?r"
    from scan_found [OF nonneg] have "nat ?r < length ms" "isUser h (ms ! nat ?r)"
      using nonneg by auto
    with assms show False by (meson nth_mem)
  qed
  then show ?thesis using scan_none [of h ms "int (length ms) - 1"] by simp
qed

lemma scan_cases:
  "(scanLastUser h ms (int (length ms) - 1) = -1 \<and> (\<forall>r\<in>set ms. \<not> isUser h r)) \<or>
   (0 \<le> scanLastUser h ms (int (length ms) - 1) \<and>
    lastUserAt h ms (nat (scanLastUser h ms (int (length ms) - 1))))"
proof (cases "0 \<le> scanLastUser h ms (int (length ms) - 1)")
  case True
  let ?r = "scanLastUser h ms (int (length ms) - 1)"
  from scan_found [OF True] have
    le: "?r \<le> int (length ms) - 1" and user: "isUser h (ms ! nat ?r)"
    and after: "\<And>j. ?r < j \<Longrightarrow> j \<le> int (length ms) - 1 \<Longrightarrow> \<not> isUser h (ms ! nat j)"
    by auto
  have "lastUserAt h ms (nat ?r)"
    unfolding lastUserAt_def
  proof (intro conjI ballI)
    show "nat ?r < length ms" using le True by auto
    show "isUser h (ms ! nat ?r)" by (rule user)
    fix j assume "j \<in> {nat ?r + 1..<length ms}"
    then have "?r < int j" "int j \<le> int (length ms) - 1" using True by auto
    then have "\<not> isUser h (ms ! nat (int j))" by (rule after)
    then show "\<not> isUser h (ms ! j)" by simp
  qed
  with True show ?thesis by simp
next
  case False
  then have neg: "scanLastUser h ms (int (length ms) - 1) < 0" by simp
  from scan_none [OF neg] have m1: "scanLastUser h ms (int (length ms) - 1) = -1"
    and none: "\<And>j. 0 \<le> j \<Longrightarrow> j \<le> int (length ms) - 1 \<Longrightarrow> \<not> isUser h (ms ! nat j)"
    by auto
  have "\<forall>r\<in>set ms. \<not> isUser h r"
  proof
    fix r assume "r \<in> set ms"
    then obtain j where j: "j < length ms" "ms ! j = r" by (auto simp: in_set_conv_nth)
    then have "\<not> isUser h (ms ! nat (int j))" by (intro none) auto
    with j show "\<not> isUser h r" by simp
  qed
  with m1 show ?thesis by simp
qed

lemma lastUserAt_unique: "lastUserAt h ms i \<Longrightarrow> lastUserAt h ms j \<Longrightarrow> i = j"
  using scan_lastUserAt [of h ms i] scan_lastUserAt [of h ms j] by simp


section \<open>Properties of the store and of the template application\<close>

lemma asString_Some: "asString v = Some s \<longleftrightarrow> v = JStr s"
  by (cases v) auto

lemma cloneContext_eq:
  "cloneContext h c =
     (h\<lparr>array_objs := array_objs h @ [arr_at h (messages c)],
        metadata_objs := metadata_objs h @ [meta_at h (metadata c)]\<rparr>,
      c\<lparr>messages := length (array_objs h), metadata := length (metadata_objs h)\<rparr>)"
  by (simp add: cloneContext_def new_array_def new_metadata_def meta_at_def)

lemma applyTemplate_compile_error:
  "template t = Inl e \<Longrightarrow> applyTemplate template t h c = Inl e"
  by (simp add: applyTemplate_def)

lemma applyTemplate_no_user:
  "template t = Inr f \<Longrightarrow> \<forall>r\<in>set (arr_at h (messages c)). \<not> isUser h r \<Longrightarrow>
   applyTemplate template t h c = Inr (h, 0)"
  by (simp add: applyTemplate_def scan_noUser)

lemma applyTemplate_target:
  assumes "template t = Inr f" and "lastUserAt h (arr_at h (messages c)) i"
    and "msg_at h (arr_at h (messages c) ! i) = Some m"
  shows "applyTemplate template t h c =
     (case asString (content m) of
        None \<Rightarrow> Inr (h, 0)
      | Some s \<Rightarrow>
          (case f s of
             Inl e \<Rightarrow> Inr (h, 0)
           | Inr out \<Rightarrow>
               if out \<noteq> s
               then Inr (array_set (h\<lparr>message_objs := message_objs h @ [m\<lparr>content := JStr out\<rparr>]\<rparr>)
                          (messages c) i (length (message_objs h)), 1)
               else Inr (h, 0)))"
  using assms
  by (simp add: applyTemplate_def scan_lastUserAt new_message_def split: option.splits sum.splits)

lemma lastUserAt_msg:
  "lastUserAt h ms i \<Longrightarrow> \<exists>m. msg_at h (ms ! i) = Some m \<and> role m = ''user''"
  by (auto simp: lastUserAt_def isUser_def split: option.splits)

lemma applyTemplate_cases:
  "(\<exists>e. applyTemplate template t h c = Inl e) \<or>
   applyTemplate template t h c = Inr (h, 0) \<or>
   (\<exists>i m s f out.
      lastUserAt h (arr_at h (messages c)) i \<and>
      msg_at h (arr_at h (messages c) ! i) = Some m \<and> content m = JStr s \<and>
      template t = Inr f \<and> f s = Inr out \<and> out \<noteq> s \<and>
      applyTemplate template t h c =
        Inr (array_set (h\<lparr>message_objs := message_objs h @ [m\<lparr>content := JStr out\<rparr>]\<rparr>)
               (messages c) i (length (message_objs h)), 1))"
proof (cases "template t")
  case (Inl e)
  then show ?thesis by (simp add: applyTemplate_compile_error)
next
  case (Inr f)
  let ?ms = "arr_at h (messages c)"
  from scan_cases [of h ?ms] show ?thesis
  proof
    assume "scanLastUser h ?ms (int (length ?ms) - 1) = -1 \<and> (\<forall>r\<in>set ?ms. \<not> isUser h r)"
    with Inr show ?thesis by (simp add: applyTemplate_no_user)
  next
    assume "0 \<le> scanLastUser h ?ms (int (length ?ms) - 1) \<and>
      lastUserAt h ?ms (nat (scanLastUser h ?ms (int (length ?ms) - 1)))"
    then obtain i where i: "lastUserAt h ?ms i" by blast
    then obtain m where m: "msg_at h (?ms ! i) = Some m" using lastUserAt_msg by blast
    note tgt = applyTemplate_target [of template t f h c i m, OF Inr i m]
    show ?thesis
    proof (cases "asString (content m)")
      case None
      with tgt show ?thesis by simp
    next
      case (Some s)
      then have s: "content m = JStr s" by (simp add: asString_Some)
      show ?thesis
      proof (cases "f s")
        case (Inl e)
        with tgt Some show ?thesis by simp
      next
        case out: (Inr out)
        show ?thesis
        proof (cases "out = s")
          case True
          with tgt Some out show ?thesis by simp
        next
          case False
          with tgt Some out have
            "applyTemplate template t h c =
              Inr (array_set (h\<lparr>message_objs := message_objs h @ [m\<lparr>content := JStr out\<rparr>]\<rparr>)
               (messages c) i (length (message_objs h)), 1)" by simp
          with i m s Inr out False show ?thesis by blast
        qed
      qed
    qed
  qed
qed

lemmas store_defs = markAsExecuted_def metadata_set_def array_set_def slots_def metadataOf_def
  messagesOf_def arr_at_def meta_at_def msg_at_def isMarkedExecuted_def processedKey_def processor_name_def

lemma doProcess_disabled:
  "\<not> templateConfigured config \<Longrightarrow>
   doProcess template config h ctx = Inr (case_prod markAsExecuted (cloneContext h ctx))"
  by (auto simp: doProcess_def templateConfigured_def split: option.splits prod.splits)

lemma doProcess_enabled:
  "inputTemplate config = Some t \<Longrightarrow> t \<noteq> '''' \<Longrightarrow>
   doProcess template config h ctx =
     (let (h0, c0) = cloneContext h ctx;
          (h1, n) = (case applyTemplate template t h0 c0 of Inl e \<Rightarrow> (h0, 0) | Inr res \<Rightarrow> res)
      in Inr (markAsExecuted (metadata_set h1 (metadata c0) processedKey (JNum (int n))) c0))"
  by (simp add: doProcess_def)

text \<open>The working copy shows what the original shows.\<close>

lemma clone_isUser: "isUser (fst (cloneContext h ctx)) = isUser h"
  by (auto simp: cloneContext_eq isUser_def msg_at_def fun_eq_iff)

lemma clone_msg_at: "msg_at (fst (cloneContext h ctx)) = msg_at h"
  by (auto simp: cloneContext_eq msg_at_def fun_eq_iff)

lemma clone_arr: "arr_at (fst (cloneContext h ctx)) (messages (snd (cloneContext h ctx))) = arr_at h (messages ctx)"
  by (simp add: cloneContext_eq arr_at_def)

lemma clone_lastUserAt:
  "lastUserAt (fst (cloneContext h ctx)) ms i = lastUserAt h ms i"
  by (simp add: lastUserAt_def clone_isUser)

lemma templateConfigured_Some: "inputTemplate config = Some t \<Longrightarrow> templateConfigured config = (t \<noteq> '''')"
  by (simp add: templateConfigured_def)

text \<open>The three ways the processor ends.\<close>

lemma doProcess_skipped:
  assumes "\<not> templateConfigured config"
  shows "\<exists>h' c'. doProcess template config h context = Inr (h', c') \<and>
          (h', c') = case_prod markAsExecuted (cloneContext h context) \<and>
          (\<exists>h2. (h', c') = markAsExecuted h2 c' \<and> metadataOf h2 c' = metadataOf h context) \<and>
          c' = context\<lparr>messages := length (array_objs h), metadata := length (metadata_objs h)\<rparr> \<and>
          message_objs h' = message_objs h \<and>
          array_objs h' = array_objs h @ [slots h context] \<and>
          metadata_objs h' = metadata_objs h @ [(metadataOf h context)(processor_name \<mapsto> JBool True)]"
proof -
  let ?h0 = "h\<lparr>array_objs := array_objs h @ [arr_at h (messages context)],
        metadata_objs := metadata_objs h @ [meta_at h (metadata context)]\<rparr>"
  let ?c0 = "context\<lparr>messages := length (array_objs h), metadata := length (metadata_objs h)\<rparr>"
  have res: "doProcess template config h context = Inr (markAsExecuted ?h0 ?c0)"
    unfolding doProcess_disabled [OF assms] cloneContext_eq by simp
  have pre: "metadataOf ?h0 ?c0 = metadataOf h context"
    by (simp add: store_defs)
  have "\<exists>h2. markAsExecuted ?h0 ?c0 = markAsExecuted h2 ?c0 \<and> metadataOf h2 ?c0 = metadataOf h context"
    using pre by blast
  moreover have "markAsExecuted ?h0 ?c0 = case_prod markAsExecuted (cloneContext h context)"
    by (simp add: cloneContext_eq)
  moreover have "snd (markAsExecuted ?h0 ?c0) = ?c0" by (simp add: markAsExecuted_def)
  moreover have "message_objs (fst (markAsExecuted ?h0 ?c0)) = message_objs h"
    by (simp add: store_defs)
  moreover have "array_objs (fst (markAsExecuted ?h0 ?c0)) = array_objs h @ [slots h context]"
    by (simp add: store_defs)
  moreover have "metadata_objs (fst (markAsExecuted ?h0 ?c0)) =
      metadata_objs h @ [(metadataOf h context)(processor_name \<mapsto> JBool True)]"
    by (simp add: store_defs)
  ultimately show ?thesis unfolding res
    by (metis prod.collapse)
qed

lemma doProcess_kept:
  assumes "inputTemplate config = Some t" "t \<noteq> ''''"
    and "(\<exists>e. applyTemplate template t (fst (cloneContext h context)) (snd (cloneContext h context)) = Inl e) \<or>
         applyTemplate template t (fst (cloneContext h context)) (snd (cloneContext h context)) =
           Inr (fst (cloneContext h context), 0)"
  shows "\<exists>h' c'. doProcess template config h context = Inr (h', c') \<and>
          (\<exists>h2. (h', c') = markAsExecuted h2 c' \<and>
             metadataOf h2 c' = (metadataOf h context)(processedKey \<mapsto> JNum 0)) \<and>
          c' = context\<lparr>messages := length (array_objs h), metadata := length (metadata_objs h)\<rparr> \<and>
          message_objs h' = message_objs h \<and>
          array_objs h' = array_objs h @ [slots h context] \<and>
          metadata_objs h' = metadata_objs h @
             [(metadataOf h context)(processedKey \<mapsto> JNum 0, processor_name \<mapsto> JBool True)]"
proof -
  let ?h0 = "h\<lparr>array_objs := array_objs h @ [arr_at h (messages context)],
        metadata_objs := metadata_objs h @ [meta_at h (metadata context)]\<rparr>"
  let ?c0 = "context\<lparr>messages := length (array_objs h), metadata := length (metadata_objs h)\<rparr>"
  let ?h2 = "metadata_set ?h0 (metadata ?c0) processedKey (JNum 0)"
  have res: "doProcess template config h context = Inr (markAsExecuted ?h2 ?c0)"
    using assms(3) unfolding doProcess_enabled [OF assms(1,2)]
    by (auto simp: split_beta cloneContext_eq)
  have pre: "metadataOf ?h2 ?c0 = (metadataOf h context)(processedKey \<mapsto> JNum 0)"
    by (simp add: store_defs)
  have "\<exists>h2. markAsExecuted ?h2 ?c0 = markAsExecuted h2 ?c0 \<and>
             metadataOf h2 ?c0 = (metadataOf h context)(processedKey \<mapsto> JNum 0)"
    using pre by blast
  moreover have "snd (markAsExecuted ?h2 ?c0) = ?c0" by (simp add: markAsExecuted_def)
  moreover have "message_objs (fst (markAsExecuted ?h2 ?c0)) = message_objs h"
    by (simp add: store_defs)
  moreover have "array_objs (fst (markAsExecuted ?h2 ?c0)) = array_objs h @ [slots h context]"
    by (simp add: store_defs)
  moreover have "metadata_objs (fst (markAsExecuted ?h2 ?c0)) = metadata_objs h @
             [(metadataOf h context)(processedKey \<mapsto> JNum 0, processor_name \<mapsto> JBool True)]"
    by (simp add: store_defs)
  ultimately show ?thesis unfolding res
    by (metis prod.collapse)
qed

lemma doProcess_applied:
  assumes "inputTemplate config = Some t" "t \<noteq> ''''"
    and "template t = Inr compiler"
    and "lastUserAt h (slots h context) i"
    and "msg_at h (slots h context ! i) = Some m"
    and "content m = JStr s"
    and "compiler s = Inr out" "out \<noteq> s"
  shows "\<exists>h' c'. doProcess template config h context = Inr (h', c') \<and>
          (\<exists>h2. (h', c') = markAsExecuted h2 c' \<and>
             metadataOf h2 c' = (metadataOf h context)(processedKey \<mapsto> JNum 1)) \<and>
          c' = context\<lparr>messages := length (array_objs h), metadata := length (metadata_objs h)\<rparr> \<and>
          message_objs h' = message_objs h @ [m\<lparr>content := JStr out\<rparr>] \<and>
          array_objs h' = array_objs h @ [(slots h context)[i := length (message_objs h)]] \<and>
          metadata_objs h' = metadata_objs h @
             [(metadataOf h context)(processedKey \<mapsto> JNum 1, processor_name \<mapsto> JBool True)]"
proof -
  let ?h0 = "h\<lparr>array_objs := array_objs h @ [arr_at h (messages context)],
        metadata_objs := metadata_objs h @ [meta_at h (metadata context)]\<rparr>"
  let ?c0 = "context\<lparr>messages := length (array_objs h), metadata := length (metadata_objs h)\<rparr>"
  have clone: "cloneContext h context = (?h0, ?c0)" by (rule cloneContext_eq)
  have h0: "?h0 = fst (cloneContext h context)" and c0: "?c0 = snd (cloneContext h context)"
    using clone by simp_all
  have lu: "lastUserAt ?h0 (arr_at ?h0 (messages ?c0)) i"
    unfolding h0 c0 using assms(4) by (simp add: clone_lastUserAt clone_arr slots_def)
  have m: "msg_at ?h0 (arr_at ?h0 (messages ?c0) ! i) = Some m"
    unfolding h0 c0 using assms(5) by (simp add: clone_msg_at clone_arr slots_def)
  have "asString (content m) = Some s" using assms(6) by simp
  with applyTemplate_target [of template t compiler ?h0 ?c0 i m, OF assms(3) lu m] assms(7,8)
  have ap: "applyTemplate template t ?h0 ?c0 =
     Inr (array_set (?h0\<lparr>message_objs := message_objs ?h0 @ [m\<lparr>content := JStr out\<rparr>]\<rparr>)
                          (messages ?c0) i (length (message_objs ?h0)), 1)"
    by simp
  let ?h2 = "metadata_set
       (array_set (?h0\<lparr>message_objs := message_objs ?h0 @ [m\<lparr>content := JStr out\<rparr>]\<rparr>)
                          (messages ?c0) i (length (message_objs ?h0)))
       (metadata ?c0) processedKey (JNum 1)"
  have res: "doProcess template config h context = Inr (markAsExecuted ?h2 ?c0)"
    unfolding doProcess_enabled [OF assms(1,2)] clone by (simp add: ap)
  have pre: "metadataOf ?h2 ?c0 = (metadataOf h context)(processedKey \<mapsto> JNum 1)"
    by (simp add: store_defs nth_append)
  have "\<exists>h2. markAsExecuted ?h2 ?c0 = markAsExecuted h2 ?c0 \<and>
             metadataOf h2 ?c0 = (metadataOf h context)(processedKey \<mapsto> JNum 1)"
    using pre by blast
  moreover have "snd (markAsExecuted ?h2 ?c0) = ?c0" by (simp add: markAsExecuted_def)
  moreover have "message_objs (fst (markAsExecuted ?h2 ?c0)) = message_objs h @ [m\<lparr>content := JStr out\<rparr>]"
    by (simp add: store_defs)
  moreover have "array_objs (fst (markAsExecuted ?h2 ?c0)) = array_objs h @ [(slots h context)[i := length (message_objs h)]]"
    by (simp add: store_defs nth_append)
  moreover have "metadata_objs (fst (markAsExecuted ?h2 ?c0)) = metadata_objs h @
             [(metadataOf h context)(processedKey \<mapsto> JNum 1, processor_name \<mapsto> JBool True)]"
    by (simp add: store_defs nth_append)
  ultimately show ?thesis unfolding res
    by (metis prod.collapse)
qed

lemma doProcess_cases [case_names skipped kept applied]:
  obtains
    (skipped) "\<not> templateConfigured config"
  | (kept) t where "inputTemplate config = Some t" "t \<noteq> ''''"
      "(\<exists>e. applyTemplate template t (fst (cloneContext h context)) (snd (cloneContext h context)) = Inl e) \<or>
       applyTemplate template t (fst (cloneContext h context)) (snd (cloneContext h context)) =
         Inr (fst (cloneContext h context), 0)"
  | (applied) t compiler i m s out where "inputTemplate config = Some t" "t \<noteq> ''''"
      "template t = Inr compiler" "lastUserAt h (slots h context) i"
      "msg_at h (slots h context ! i) = Some m" "content m = JStr s"
      "compiler s = Inr out" "out \<noteq> s"
proof (cases "templateConfigured config")
  case False
  then show ?thesis by (rule skipped)
next
  case True
  then obtain t where t: "inputTemplate config = Some t" "t \<noteq> ''''"
    by (auto simp: templateConfigured_def split: option.splits)
  let ?h0 = "fst (cloneContext h context)" and ?c0 = "snd (cloneContext h context)"
  from applyTemplate_cases [of template t ?h0 ?c0]
  consider "(\<exists>e. applyTemplate template t ?h0 ?c0 = Inl e) \<or> applyTemplate template t ?h0 ?c0 = Inr (?h0, 0)"
    | i m s f out where "lastUserAt ?h0 (arr_at ?h0 (messages ?c0)) i"
      "msg_at ?h0 (arr_at ?h0 (messages ?c0) ! i) = Some m" "content m = JStr s"
      "template t = Inr f" "f s = Inr out" "out \<noteq> s"
    by blast
  then show ?thesis
  proof cases
    case 1
    with t show ?thesis by (rule kept)
  next
    case 2
    from 2(1,2) have "lastUserAt h (slots h context) i" "msg_at h (slots h context ! i) = Some m"
      by (simp_all add: clone_lastUserAt clone_arr clone_msg_at slots_def)
    with t 2(3-) show ?thesis by (intro applied [of t f i m s out])
  qed
qed

lemma obs_slots:
  "messages c' = length (array_objs h) \<Longrightarrow> array_objs h' = array_objs h @ [xs] \<Longrightarrow> slots h' c' = xs"
  by (simp add: slots_def arr_at_def)

lemma obs_metadata:
  "metadata c' = length (metadata_objs h) \<Longrightarrow> metadata_objs h' = metadata_objs h @ [md] \<Longrightarrow>
   metadataOf h' c' = md"
  by (simp add: metadataOf_def meta_at_def)

lemma old_msg_at:
  "message_objs h' = message_objs h @ ms \<Longrightarrow> r < length (message_objs h) \<Longrightarrow> msg_at h' r = msg_at h r"
  by (simp add: msg_at_def nth_append)

lemma old_arr_at:
  "array_objs h' = array_objs h @ xs \<Longrightarrow> a < length (array_objs h) \<Longrightarrow> arr_at h' a = arr_at h a"
  by (simp add: arr_at_def nth_append)

lemma old_meta_at:
  "metadata_objs h' = metadata_objs h @ xs \<Longrightarrow> a < length (metadata_objs h) \<Longrightarrow> meta_at h' a = meta_at h a"
  by (simp add: meta_at_def nth_append)

lemma key_distinct: "processedKey \<noteq> processor_name"
  by (simp add: processedKey_def processor_name_def)

lemmas example_defs = conversation_def callerContext_def systemMessage_def userMessage_def
  assistantMessage_def

lemma conversation_target:
  "lastUserAt (conversation c) (slots (conversation c) callerContext) 3"
  "msg_at (conversation c) (slots (conversation c) callerContext ! 3) = Some (userMessage ''m3'' c)"
  "slots (conversation c) callerContext = [0, 1, 2, 3]"
  by (simp_all add: lastUserAt_def isUser_def slots_def arr_at_def msg_at_def example_defs)

lemma applyTemplate_clone_target:
  assumes "template t = Inr f" and "lastUserAt h (slots h context) i"
    and "msg_at h (slots h context ! i) = Some m"
  shows "applyTemplate template t (fst (cloneContext h context)) (snd (cloneContext h context)) =
     (case asString (content m) of
        None \<Rightarrow> Inr (fst (cloneContext h context), 0)
      | Some s \<Rightarrow>
          (case f s of
             Inl e \<Rightarrow> Inr (fst (cloneContext h context), 0)
           | Inr out \<Rightarrow>
               if out \<noteq> s
               then Inr (array_set ((fst (cloneContext h context))
                           \<lparr>message_objs := message_objs (fst (cloneContext h context)) @
                              [m\<lparr>content := JStr out\<rparr>]\<rparr>)
                          (messages (snd (cloneContext h context))) i
                          (length (message_objs (fst (cloneContext h context)))), 1)
               else Inr (fst (cloneContext h context), 0)))"
proof -
  let ?h0 = "fst (cloneContext h context)" and ?c0 = "snd (cloneContext h context)"
  have lu: "lastUserAt ?h0 (arr_at ?h0 (messages ?c0)) i"
    using assms(2) by (simp add: clone_lastUserAt clone_arr slots_def)
  have m: "msg_at ?h0 (arr_at ?h0 (messages ?c0) ! i) = Some m"
    using assms(3) by (simp add: clone_msg_at clone_arr slots_def)
  show ?thesis
    by (rule applyTemplate_target [of template t f ?h0 ?c0 i m, OF assms(1) lu m])
qed

lemma applyTemplate_clone_no_user:
  assumes "template t = Inr f" and "\<forall>r\<in>set (slots h context). \<not> isUser h r"
  shows "applyTemplate template t (fst (cloneContext h context)) (snd (cloneContext h context)) =
           Inr (fst (cloneContext h context), 0)"
proof -
  let ?h0 = "fst (cloneContext h context)" and ?c0 = "snd (cloneContext h context)"
  have "\<forall>r\<in>set (arr_at ?h0 (messages ?c0)). \<not> isUser ?h0 r"
    using assms(2) by (simp add: clone_isUser clone_arr slots_def)
  with assms(1) show ?thesis by (rule applyTemplate_no_user)
qed

lemma lastUserAt_in_set: "lastUserAt h ms i \<Longrightarrow> \<exists>r\<in>set ms. isUser h r"
  by (auto simp: lastUserAt_def)

text \<open>Every run of the processor, in one statement.\<close>

lemma doProcess_summary:
  obtains h' c' xs ms md where
    "doProcess template config h context = Inr (h', c')"
    "messages c' = length (array_objs h)" "metadata c' = length (metadata_objs h)"
    "array_objs h' = array_objs h @ [xs]" "slots h' c' = xs"
    "message_objs h' = message_objs h @ ms"
    "metadata_objs h' = metadata_objs h @ [md]" "metadataOf h' c' = md"
    "(\<not> templateConfigured config \<and> xs = slots h context \<and> ms = [] \<and>
        md = (metadataOf h context)(processor_name \<mapsto> JBool True)) \<or>
     (templateConfigured config \<and> xs = slots h context \<and> ms = [] \<and>
        md = (metadataOf h context)(processedKey \<mapsto> JNum 0, processor_name \<mapsto> JBool True)) \<or>
     (templateConfigured config \<and>
        (\<exists>i m out. lastUserAt h (slots h context) i \<and> msg_at h (slots h context ! i) = Some m \<and>
           xs = (slots h context)[i := length (message_objs h)] \<and>
           ms = [m\<lparr>content := JStr out\<rparr>] \<and>
           md = (metadataOf h context)(processedKey \<mapsto> JNum 1, processor_name \<mapsto> JBool True)))"
proof (cases rule: doProcess_cases [of config _ template h "context"])
  case skipped
  from doProcess_skipped [OF skipped, of template h "context"]
  obtain h' c' where res: "doProcess template config h context = Inr (h', c')"
    and c': "c' = context\<lparr>messages := length (array_objs h), metadata := length (metadata_objs h)\<rparr>"
    and objs: "message_objs h' = message_objs h"
    and arrs: "array_objs h' = array_objs h @ [slots h context]"
    and mds: "metadata_objs h' = metadata_objs h @ [(metadataOf h context)(processor_name \<mapsto> JBool True)]"
    by blast
  have "messages c' = length (array_objs h)" "metadata c' = length (metadata_objs h)"
    using c' by simp_all
  moreover from this arrs mds have "slots h' c' = slots h context"
    "metadataOf h' c' = (metadataOf h context)(processor_name \<mapsto> JBool True)"
    by (simp_all add: obs_slots obs_metadata)
  moreover have "message_objs h' = message_objs h @ []" using objs by simp
  ultimately show ?thesis using res arrs mds skipped by (intro that) auto
next
  case (kept t)
  from doProcess_kept [OF kept]
  obtain h' c' where res: "doProcess template config h context = Inr (h', c')"
    and c': "c' = context\<lparr>messages := length (array_objs h), metadata := length (metadata_objs h)\<rparr>"
    and objs: "message_objs h' = message_objs h"
    and arrs: "array_objs h' = array_objs h @ [slots h context]"
    and mds: "metadata_objs h' = metadata_objs h @
        [(metadataOf h context)(processedKey \<mapsto> JNum 0, processor_name \<mapsto> JBool True)]"
    by blast
  have "messages c' = length (array_objs h)" "metadata c' = length (metadata_objs h)"
    using c' by simp_all
  moreover from this arrs mds have "slots h' c' = slots h context"
    "metadataOf h' c' = (metadataOf h context)(processedKey \<mapsto> JNum 0, processor_name \<mapsto> JBool True)"
    by (simp_all add: obs_slots obs_metadata)
  moreover have "message_objs h' = message_objs h @ []" using objs by simp
  moreover have "templateConfigured config" using kept(1,2) by (simp add: templateConfigured_Some)
  ultimately show ?thesis using res arrs mds by (intro that) auto
next
  case (applied t compiler i m s out)
  from doProcess_applied [where template = template and compiler = compiler, OF applied]
  obtain h' c' where res: "doProcess template config h context = Inr (h', c')"
    and c': "c' = context\<lparr>messages := length (array_objs h), metadata := length (metadata_objs h)\<rparr>"
    and objs: "message_objs h' = message_objs h @ [m\<lparr>content := JStr out\<rparr>]"
    and arrs: "array_objs h' = array_objs h @ [(slots h context)[i := length (message_objs h)]]"
    and mds: "metadata_objs h' = metadata_objs h @
        [(metadataOf h context)(processedKey \<mapsto> JNum 1, processor_name \<mapsto> JBool True)]"
    by blast
  have "messages c' = length (array_objs h)" "metadata c' = length (metadata_objs h)"
    using c' by simp_all
  moreover from this arrs mds have "slots h' c' = (slots h context)[i := length (message_objs h)]"
    "metadataOf h' c' = (metadataOf h context)(processedKey \<mapsto> JNum 1, processor_name \<mapsto> JBool True)"
    by (simp_all add: obs_slots obs_metadata)
  moreover have "templateConfigured config" using applied(1,2) by (simp add: templateConfigured_Some)
  ultimately show ?thesis using res arrs mds objs applied(4,5) by (intro that) auto
qed

lemma quiet_no_user:
  "\<forall>r\<in>set (slots quietConversation callerContext). \<not> isUser quietConversation r"
  "slots quietConversation callerContext = [0, 1]"
  by (simp_all add: isUser_def slots_def arr_at_def msg_at_def quietConversation_def example_defs)

lemma same_objs_msg_at: "message_objs h' = message_objs h \<Longrightarrow> msg_at h' = msg_at h"
  by (simp add: msg_at_def fun_eq_iff)

lemma conversation_valid: "validContext (conversation c) callerContext"
  by (simp add: validContext_def arr_at_def example_defs)

lemma doProcess_kept_shows:
  assumes "inputTemplate config = Some t" "t \<noteq> ''''"
    and "(\<exists>e. applyTemplate template t (fst (cloneContext h context)) (snd (cloneContext h context)) = Inl e) \<or>
         applyTemplate template t (fst (cloneContext h context)) (snd (cloneContext h context)) =
           Inr (fst (cloneContext h context), 0)"
  shows "\<exists>h' c'. doProcess template config h context = Inr (h', c') \<and>
          (\<exists>h2. (h', c') = markAsExecuted h2 c') \<and>
          slots h' c' = slots h context \<and>
          message_objs h' = message_objs h \<and>
          messagesOf h' c' = messagesOf h context \<and>
          metadataOf h' c' processedKey = Some (JNum 0) \<and>
          isMarkedExecuted h' c'"
proof -
  from doProcess_kept [OF assms]
  obtain h' c' where res: "doProcess template config h context = Inr (h', c')"
    and mark: "\<exists>h2. (h', c') = markAsExecuted h2 c'"
    and c': "c' = context\<lparr>messages := length (array_objs h), metadata := length (metadata_objs h)\<rparr>"
    and objs: "message_objs h' = message_objs h"
    and arrs: "array_objs h' = array_objs h @ [slots h context]"
    and mds: "metadata_objs h' = metadata_objs h @
        [(metadataOf h context)(processedKey \<mapsto> JNum 0, processor_name \<mapsto> JBool True)]"
    by blast
  have refs: "messages c' = length (array_objs h)" "metadata c' = length (metadata_objs h)"
    using c' by simp_all
  have sl: "slots h' c' = slots h context" using refs(1) arrs by (rule obs_slots)
  have md: "metadataOf h' c' =
      (metadataOf h context)(processedKey \<mapsto> JNum 0, processor_name \<mapsto> JBool True)"
    using refs(2) mds by (rule obs_metadata)
  have "messagesOf h' c' = messagesOf h context"
    by (simp add: messagesOf_def sl same_objs_msg_at [OF objs])
  moreover have "metadataOf h' c' processedKey = Some (JNum 0)"
    by (simp add: md key_distinct)
  moreover have "isMarkedExecuted h' c'"
    by (simp add: isMarkedExecuted_def md)
  ultimately show ?thesis using res mark sl objs by blast
qed

lemma asString_None: "asString v = None \<longleftrightarrow> (\<forall>s. v \<noteq> JStr s)"
  by (cases v) auto

lemma target_after_replacement:
  assumes valid: "\<forall>r\<in>set (slots h context). r < length (message_objs h)"
    and target: "lastUserAt h (slots h context) i" "msg_at h (slots h context ! i) = Some m"
    and objs: "message_objs h1 = message_objs h @ [m\<lparr>content := v\<rparr>]"
    and sl: "slots h1 c1 = (slots h context)[i := length (message_objs h)]"
  shows "lastUserAt h1 (slots h1 c1) i \<and> msg_at h1 (slots h1 c1 ! i) = Some (m\<lparr>content := v\<rparr>)"
proof -
  from target have i: "i < length (slots h context)" and user: "role m = ''user''"
    and later: "\<And>j. j \<in> {i + 1..<length (slots h context)} \<Longrightarrow> \<not> isUser h (slots h context ! j)"
    by (auto simp: lastUserAt_def isUser_def)
  have new: "msg_at h1 (slots h1 c1 ! i) = Some (m\<lparr>content := v\<rparr>)"
    using i by (simp add: sl objs msg_at_def)
  have "isUser h1 (slots h1 c1 ! i)" using new user by (simp add: isUser_def)
  moreover have "\<not> isUser h1 (slots h1 c1 ! j)" if j: "j \<in> {i + 1..<length (slots h1 c1)}" for j
  proof -
    from j have j': "j \<in> {i + 1..<length (slots h context)}" "j \<noteq> i" by (simp_all add: sl)
    then have same: "slots h1 c1 ! j = slots h context ! j" by (simp add: sl)
    have "slots h context ! j < length (message_objs h)" using valid j' by simp
    then have "msg_at h1 (slots h context ! j) = msg_at h (slots h context ! j)"
      using objs by (simp add: old_msg_at)
    then show ?thesis using later [OF j'(1)] by (simp add: same isUser_def)
  qed
  moreover have "i < length (slots h1 c1)" using i by (simp add: sl)
  ultimately show ?thesis using new by (simp add: lastUserAt_def)
qed

lemma target_after_no_change:
  assumes target: "lastUserAt h (slots h context) i" "msg_at h (slots h context ! i) = Some m"
    and objs: "message_objs h1 = message_objs h"
    and sl: "slots h1 c1 = slots h context"
  shows "lastUserAt h1 (slots h1 c1) i \<and> msg_at h1 (slots h1 c1 ! i) = Some m"
  using target by (simp add: sl lastUserAt_def isUser_def same_objs_msg_at [OF objs])

lemma doProcess_identity:
  assumes "inputTemplate config = Some t" "t \<noteq> ''''" "template t = Inr compiler"
    and "lastUserAt h (slots h context) i"
    and "msg_at h (slots h context ! i) = Some m"
    and "content m = JStr s" and "compiler s = Inr s"
  shows "\<exists>h' c'. doProcess template config h context = Inr (h', c') \<and>
          (\<exists>h2. (h', c') = markAsExecuted h2 c') \<and>
          slots h' c' = slots h context \<and>
          message_objs h' = message_objs h \<and>
          messagesOf h' c' = messagesOf h context \<and>
          metadataOf h' c' processedKey = Some (JNum 0) \<and>
          isMarkedExecuted h' c'"
proof (rule doProcess_kept_shows [OF assms(1,2)])
  have "asString (content m) = Some s" using assms(6) by simp
  with applyTemplate_clone_target [of template t compiler h "context" i m, OF assms(3,4,5)] assms(7)
  show "(\<exists>e. applyTemplate template t (fst (cloneContext h context)) (snd (cloneContext h context)) = Inl e) \<or>
      applyTemplate template t (fst (cloneContext h context)) (snd (cloneContext h context)) =
        Inr (fst (cloneContext h context), 0)"
    by simp
qed

section \<open>The claims\<close>

text \<open>
  C1 (substitution correctness). When the last user message has the string content \<open>s\<close>,
  a template is configured and compiles, and the compiled function returns a string
  \<open>out\<close> different from \<open>s\<close>, then \<^verbatim>\<open>doProcess\<close> returns normally, the slot of that
  message holds a new message object that is the original with \<open>content\<close> set to
  \<open>out\<close>, every other slot is as before, and the metadata of the returned context
  records the processed count 1. In particular, with the template
  \<^verbatim>\<open>Context: {{text}}\<close> and the content \<^verbatim>\<open>hi\<close> the new content is exactly
  \<^verbatim>\<open>Context: hi\<close>.
\<close>

theorem substitution_correctness:
  assumes "lastUserAt h (slots h context) i"
    and "msg_at h (slots h context ! i) = Some m"
    and "content m = JStr s"
  shows "(inputTemplate config = Some t \<and> t \<noteq> '''' \<and> template t = Inr compiler \<and>
          compiler s = Inr out \<and> out \<noteq> s \<longrightarrow>
            (\<exists>h' c'. doProcess template config h context = Inr (h', c') \<and>
               slots h' c' = (slots h context)[i := length (message_objs h)] \<and>
               message_objs h' = message_objs h @ [m\<lparr>content := JStr out\<rparr>] \<and>
               msg_at h' (slots h' c' ! i) = Some (m\<lparr>content := JStr out\<rparr>) \<and>
               metadataOf h' c' processedKey = Some (JNum 1))) \<and>
         (s = ''hi'' \<longrightarrow>
            (\<exists>h' c'. doProcess textTemplate \<lparr>inputTemplate = Some ''Context: {{text}}''\<rparr> h context
                        = Inr (h', c') \<and>
               slots h' c' = (slots h context)[i := length (message_objs h)] \<and>
               message_objs h' = message_objs h @ [m\<lparr>content := JStr ''Context: hi''\<rparr>] \<and>
               msg_at h' (slots h' c' ! i) = Some (m\<lparr>content := JStr ''Context: hi''\<rparr>) \<and>
               metadataOf h' c' processedKey = Some (JNum 1)))"
proof -
  have general: "\<exists>h' c'. doProcess template config h context = Inr (h', c') \<and>
               slots h' c' = (slots h context)[i := length (message_objs h)] \<and>
               message_objs h' = message_objs h @ [m\<lparr>content := JStr out\<rparr>] \<and>
               msg_at h' (slots h' c' ! i) = Some (m\<lparr>content := JStr out\<rparr>) \<and>
               metadataOf h' c' processedKey = Some (JNum 1)"
    if "inputTemplate config = Some t" "t \<noteq> ''''" "template t = Inr compiler"
      "compiler s = Inr out" "out \<noteq> s"
    for template :: engine and config t compiler out
  proof -
    from doProcess_applied [where template = template and compiler = compiler, OF that(1,2,3) assms that(4,5)]
    obtain h' c' where res: "doProcess template config h context = Inr (h', c')"
      and c': "c' = context\<lparr>messages := length (array_objs h), metadata := length (metadata_objs h)\<rparr>"
      and objs: "message_objs h' = message_objs h @ [m\<lparr>content := JStr out\<rparr>]"
      and arrs: "array_objs h' = array_objs h @ [(slots h context)[i := length (message_objs h)]]"
      and mds: "metadata_objs h' = metadata_objs h @
             [(metadataOf h context)(processedKey \<mapsto> JNum 1, processor_name \<mapsto> JBool True)]"
      by blast
    have sl: "slots h' c' = (slots h context)[i := length (message_objs h)]"
      using c' arrs by (intro obs_slots) simp_all
    have md: "metadataOf h' c' = (metadataOf h context)(processedKey \<mapsto> JNum 1, processor_name \<mapsto> JBool True)"
      using c' mds by (intro obs_metadata) simp_all
    have i: "i < length (slots h context)" using assms(1) by (simp add: lastUserAt_def)
    have "msg_at h' (slots h' c' ! i) = Some (m\<lparr>content := JStr out\<rparr>)"
      using i by (simp add: sl objs msg_at_def)
    moreover have "metadataOf h' c' processedKey = Some (JNum 1)"
      by (simp add: md key_distinct)
    ultimately show ?thesis using res sl objs by blast
  qed
  have "\<exists>h' c'. doProcess textTemplate \<lparr>inputTemplate = Some ''Context: {{text}}''\<rparr> h context
                        = Inr (h', c') \<and>
               slots h' c' = (slots h context)[i := length (message_objs h)] \<and>
               message_objs h' = message_objs h @ [m\<lparr>content := JStr ''Context: hi''\<rparr>] \<and>
               msg_at h' (slots h' c' ! i) = Some (m\<lparr>content := JStr ''Context: hi''\<rparr>) \<and>
               metadataOf h' c' processedKey = Some (JNum 1)" if "s = ''hi''"
  proof (rule general)
    show "inputTemplate \<lparr>inputTemplate = Some ''Context: {{text}}''\<rparr> = Some ''Context: {{text}}''"
      by simp
    show "''Context: {{text}}'' \<noteq> ''''" by simp
    show "textTemplate ''Context: {{text}}'' = Inr (\<lambda>s. Inr (interpolateFrom 0 ''Context: {{text}}'' s))"
      by (simp add: textTemplate_def)
    show "Inr (interpolateFrom 0 ''Context: {{text}}'' s) = Inr ''Context: hi''"
      using that by (simp add: matchPlaceholder_def isSpace_def)
    show "''Context: hi'' \<noteq> s" using that by simp
  qed
  with general show ?thesis by blast
qed


theorem substitution_correctness_witness:
  "\<exists>h' c'. doProcess textTemplate \<lparr>inputTemplate = Some ''Context: {{text}}''\<rparr>
              (conversation (JStr ''hi'')) callerContext = Inr (h', c') \<and>
     slots h' c' = [0, 1, 2, 4] \<and>
     message_objs h' = message_objs (conversation (JStr ''hi'')) @ [userMessage ''m3'' (JStr ''Context: hi'')] \<and>
     msg_at h' (slots h' c' ! 3) = Some (userMessage ''m3'' (JStr ''Context: hi'')) \<and>
     metadataOf h' c' processedKey = Some (JNum 1)"
proof -
  have c: "content (userMessage ''m3'' (JStr ''hi'')) = JStr ''hi''"
    by (simp add: userMessage_def)
  have "interpolateFrom 0 ''Context: {{text}}'' ''hi'' = ''Context: hi''"
    by (simp add: matchPlaceholder_def isSpace_def)
  then have hyps: "inputTemplate \<lparr>inputTemplate = Some ''Context: {{text}}''\<rparr> = Some ''Context: {{text}}'' \<and>
      ''Context: {{text}}'' \<noteq> '''' \<and>
      textTemplate ''Context: {{text}}'' = Inr (\<lambda>s. Inr (interpolateFrom 0 ''Context: {{text}}'' s)) \<and>
      (\<lambda>s. Inr (interpolateFrom 0 ''Context: {{text}}'' s)) ''hi'' = Inr ''Context: hi'' \<and>
      ''Context: hi'' \<noteq> ''hi''"
    by (simp add: textTemplate_def)
  from substitution_correctness [OF conversation_target(1,2) c,
      where config = "\<lparr>inputTemplate = Some ''Context: {{text}}''\<rparr>" and t = "''Context: {{text}}''"
        and template = textTemplate
        and compiler = "\<lambda>s. Inr (interpolateFrom 0 ''Context: {{text}}'' s)"
        and out = "''Context: hi''"] hyps
  have "\<exists>h' c'. doProcess textTemplate \<lparr>inputTemplate = Some ''Context: {{text}}''\<rparr>
              (conversation (JStr ''hi'')) callerContext = Inr (h', c') \<and>
     slots h' c' = (slots (conversation (JStr ''hi'')) callerContext)[3 := length (message_objs (conversation (JStr ''hi'')))] \<and>
     message_objs h' = message_objs (conversation (JStr ''hi'')) @ [(userMessage ''m3'' (JStr ''hi''))\<lparr>content := JStr ''Context: hi''\<rparr>] \<and>
     msg_at h' (slots h' c' ! 3) = Some ((userMessage ''m3'' (JStr ''hi''))\<lparr>content := JStr ''Context: hi''\<rparr>) \<and>
     metadataOf h' c' processedKey = Some (JNum 1)"
    by blast
  moreover have "(slots (conversation (JStr ''hi'')) callerContext)[3 := length (message_objs (conversation (JStr ''hi'')))] = [0, 1, 2, 4]"
    by (simp add: conversation_target(3)) (simp add: conversation_def)
  moreover have "(userMessage ''m3'' (JStr ''hi''))\<lparr>content := JStr ''Context: hi''\<rparr> = userMessage ''m3'' (JStr ''Context: hi'')"
    by (simp add: userMessage_def)
  ultimately show ?thesis by simp
qed

text \<open>
  C2 (single-target scope and target selection). The claim says that for every context
  at most one message is altered, the last user message, and that without a user message
  nothing is altered and the processed count is 0. The last part does not hold for every
  run: without a template the guard of line 32 returns before the count is written at
  line 89. For the conversation without a user message and no template, no slot holds a
  user message, and the metadata of the returned context holds the marker and nothing
  under the key of the count.
\<close>

theorem no_user_message_count_not_recorded:
  "slots quietConversation callerContext = [0, 1] \<and>
   \<not> isUser quietConversation 0 \<and> \<not> isUser quietConversation 1 \<and>
   doProcess textTemplate \<lparr>inputTemplate = None\<rparr> quietConversation callerContext =
     Inr (quietConversation
            \<lparr>array_objs := [[0, 1], [0, 1]],
             metadata_objs := [Map.empty, [processor_name \<mapsto> JBool True]]\<rparr>,
          \<lparr>messages = 1, metadata = 1\<rparr>) \<and>
   metadataOf (quietConversation
            \<lparr>array_objs := [[0, 1], [0, 1]],
             metadata_objs := [Map.empty, [processor_name \<mapsto> JBool True]]\<rparr>)
      \<lparr>messages = 1, metadata = 1\<rparr> processedKey = None"
  by (simp add: doProcess_def cloneContext_eq store_defs isUser_def quietConversation_def
      example_defs)

text \<open>
  C2, as the code has it. For every engine, configuration, store and context,
  \<^verbatim>\<open>doProcess\<close> returns normally and the returned context has as many message slots
  as the input; a slot whose reference differs from the input's is the slot of the last
  user message (the first user message met when scanning from the last index down), so
  at most one slot is altered and every other slot holds the very reference it held; no
  message object that existed before is changed. If no slot holds a user message, every
  slot is as before and no message object is created; the processed count 0 is recorded
  when a template is configured, and when none is, the entry under the key of the count
  is left as the input had it.
\<close>

theorem single_target_scope:
  "\<exists>h' c'. doProcess template config h context = Inr (h', c') \<and>
     length (slots h' c') = length (slots h context) \<and>
     (\<forall>j<length (slots h context).
        slots h' c' ! j \<noteq> slots h context ! j \<longrightarrow> lastUserAt h (slots h context) j) \<and>
     (\<forall>j k. j < length (slots h context) \<and> k < length (slots h context) \<and>
        slots h' c' ! j \<noteq> slots h context ! j \<and> slots h' c' ! k \<noteq> slots h context ! k
        \<longrightarrow> j = k) \<and>
     (\<forall>r<length (message_objs h). msg_at h' r = msg_at h r) \<and>
     ((\<forall>r\<in>set (slots h context). \<not> isUser h r) \<longrightarrow>
        slots h' c' = slots h context \<and> message_objs h' = message_objs h \<and>
        metadataOf h' c' processedKey =
          (if templateConfigured config then Some (JNum 0)
           else metadataOf h context processedKey))"
proof -
  obtain h' c' xs ms md where
    res: "doProcess template config h context = Inr (h', c')"
    and slots: "slots h' c' = xs"
    and objs: "message_objs h' = message_objs h @ ms"
    and meta: "metadataOf h' c' = md"
    and outcome:
    "(\<not> templateConfigured config \<and> xs = slots h context \<and> ms = [] \<and>
        md = (metadataOf h context)(processor_name \<mapsto> JBool True)) \<or>
     (templateConfigured config \<and> xs = slots h context \<and> ms = [] \<and>
        md = (metadataOf h context)(processedKey \<mapsto> JNum 0, processor_name \<mapsto> JBool True)) \<or>
     (templateConfigured config \<and>
        (\<exists>i m out. lastUserAt h (slots h context) i \<and> msg_at h (slots h context ! i) = Some m \<and>
           xs = (slots h context)[i := length (message_objs h)] \<and>
           ms = [m\<lparr>content := JStr out\<rparr>] \<and>
           md = (metadataOf h context)(processedKey \<mapsto> JNum 1, processor_name \<mapsto> JBool True)))"
    by (rule doProcess_summary)
  have old: "\<forall>r<length (message_objs h). msg_at h' r = msg_at h r"
    using objs by (simp add: old_msg_at)
  from outcome consider
    (same) "xs = slots h context" "ms = []"
      "md processedKey =
         (if templateConfigured config then Some (JNum 0) else metadataOf h context processedKey)"
    | (replaced) i where "lastUserAt h (slots h context) i"
      "xs = (slots h context)[i := length (message_objs h)]"
    by (auto simp: key_distinct)
  then show ?thesis
  proof cases
    case same
    then show ?thesis using res slots objs meta old by auto
  next
    case (replaced i)
    have changed: "j = i" if "j < length (slots h context)" "xs ! j \<noteq> slots h context ! j" for j
      using that replaced(2) by (cases "j = i") auto
    have "\<exists>r\<in>set (slots h context). isUser h r"
      using replaced(1) by (rule lastUserAt_in_set)
    moreover have "length xs = length (slots h context)" using replaced(2) by simp
    moreover have "\<forall>j<length (slots h context).
        xs ! j \<noteq> slots h context ! j \<longrightarrow> lastUserAt h (slots h context) j"
      using changed replaced(1) by blast
    moreover have "\<forall>j k. j < length (slots h context) \<and> k < length (slots h context) \<and>
        xs ! j \<noteq> slots h context ! j \<and> xs ! k \<noteq> slots h context ! k \<longrightarrow> j = k"
      using changed by blast
    ultimately show ?thesis using res slots old by blast
  qed
qed

theorem single_target_scope_witness:
  "(\<exists>h' c'. doProcess textTemplate \<lparr>inputTemplate = Some ''Context: {{text}}''\<rparr>
               (conversation (JStr ''hi'')) callerContext = Inr (h', c') \<and>
      length (slots h' c') = 4 \<and> slots h' c' ! 0 = 0 \<and> slots h' c' ! 1 = 1 \<and> slots h' c' ! 2 = 2 \<and>
      msg_at h' 1 = Some (userMessage ''m1'' (JStr ''first''))) \<and>
   (\<exists>h' c'. doProcess textTemplate \<lparr>inputTemplate = Some ''Context: {{text}}''\<rparr>
               quietConversation callerContext = Inr (h', c') \<and>
      slots h' c' = [0, 1] \<and> message_objs h' = [systemMessage, assistantMessage] \<and>
      metadataOf h' c' processedKey = Some (JNum 0))"
proof
  let ?h = "conversation (JStr ''hi'')"
  let ?config = "\<lparr>inputTemplate = Some ''Context: {{text}}''\<rparr>"
  from single_target_scope [of textTemplate ?config ?h callerContext]
  obtain h' c' where res: "doProcess textTemplate ?config ?h callerContext = Inr (h', c')"
    and len: "length (slots h' c') = length (slots ?h callerContext)"
    and changed: "\<And>j. j < length (slots ?h callerContext) \<Longrightarrow>
        slots h' c' ! j \<noteq> slots ?h callerContext ! j \<Longrightarrow> lastUserAt ?h (slots ?h callerContext) j"
    and old: "\<And>r. r < length (message_objs ?h) \<Longrightarrow> msg_at h' r = msg_at ?h r"
    by blast
  have other: "slots h' c' ! j = slots ?h callerContext ! j"
    if "j < length (slots ?h callerContext)" "j \<noteq> 3" for j
    using changed [OF that(1)] lastUserAt_unique [OF _ conversation_target(1) [of "JStr ''hi''"]] that(2)
    by blast
  have "slots h' c' ! 0 = 0" "slots h' c' ! 1 = 1" "slots h' c' ! 2 = 2"
    using other [of 0] other [of 1] other [of 2] by (simp_all add: conversation_target(3))
  moreover have "length (slots h' c') = 4" using len by (simp add: conversation_target(3))
  moreover have "msg_at h' 1 = Some (userMessage ''m1'' (JStr ''first''))"
    using old [of 1] by (simp add: conversation_def msg_at_def)
  ultimately show "\<exists>h' c'. doProcess textTemplate ?config ?h callerContext = Inr (h', c') \<and>
      length (slots h' c') = 4 \<and> slots h' c' ! 0 = 0 \<and> slots h' c' ! 1 = 1 \<and> slots h' c' ! 2 = 2 \<and>
      msg_at h' 1 = Some (userMessage ''m1'' (JStr ''first''))"
    using res by blast
next
  let ?config = "\<lparr>inputTemplate = Some ''Context: {{text}}''\<rparr>"
  have cfg: "templateConfigured ?config" by (simp add: templateConfigured_def)
  from single_target_scope [of textTemplate ?config quietConversation callerContext] quiet_no_user(1)
  obtain h' c' where "doProcess textTemplate ?config quietConversation callerContext = Inr (h', c')"
    "slots h' c' = slots quietConversation callerContext"
    "message_objs h' = message_objs quietConversation"
    "metadataOf h' c' processedKey =
       (if templateConfigured ?config then Some (JNum 0)
        else metadataOf quietConversation callerContext processedKey)"
    by blast
  then have "\<exists>h' c'. doProcess textTemplate ?config quietConversation callerContext = Inr (h', c') \<and>
    slots h' c' = slots quietConversation callerContext \<and>
    message_objs h' = message_objs quietConversation \<and>
    metadataOf h' c' processedKey = Some (JNum 0)"
    using cfg by auto
  then obtain h' c' where "doProcess textTemplate ?config quietConversation callerContext = Inr (h', c')"
    "slots h' c' = slots quietConversation callerContext"
    "message_objs h' = message_objs quietConversation"
    "metadataOf h' c' processedKey = Some (JNum 0)"
    by blast
  moreover have "message_objs quietConversation = [systemMessage, assistantMessage]"
    by (simp add: quietConversation_def)
  ultimately show "\<exists>h' c'. doProcess textTemplate ?config quietConversation callerContext = Inr (h', c') \<and>
      slots h' c' = [0, 1] \<and> message_objs h' = [systemMessage, assistantMessage] \<and>
      metadataOf h' c' processedKey = Some (JNum 0)"
    by (simp add: quiet_no_user(2))
qed

text \<open>
  C3 (failure containment). With a template configured, if the engine throws when it
  compiles the template, or the compiled function throws when it is applied to the string
  content of the last user message, then \<^verbatim>\<open>doProcess\<close> still returns normally: every
  slot and every message object is as in the input, the processed count is recorded as
  0, and the returned context is the result of \<^verbatim>\<open>markAsExecuted\<close> and carries its
  marker.
\<close>

theorem failure_containment:
  assumes "inputTemplate config = Some t" "t \<noteq> ''''"
    and "(\<exists>e. template t = Inl e) \<or>
         (\<exists>compiler i m s e. template t = Inr compiler \<and> lastUserAt h (slots h context) i \<and>
            msg_at h (slots h context ! i) = Some m \<and> content m = JStr s \<and> compiler s = Inl e)"
  shows "\<exists>h' c'. doProcess template config h context = Inr (h', c') \<and>
          (\<exists>h2. (h', c') = markAsExecuted h2 c') \<and>
          slots h' c' = slots h context \<and>
          message_objs h' = message_objs h \<and>
          messagesOf h' c' = messagesOf h context \<and>
          metadataOf h' c' processedKey = Some (JNum 0) \<and>
          isMarkedExecuted h' c'"
proof (rule doProcess_kept_shows [OF assms(1,2)])
  let ?h0 = "fst (cloneContext h context)" and ?c0 = "snd (cloneContext h context)"
  from assms(3) show "(\<exists>e. applyTemplate template t ?h0 ?c0 = Inl e) \<or>
      applyTemplate template t ?h0 ?c0 = Inr (?h0, 0)"
  proof
    assume "\<exists>e. template t = Inl e"
    then show ?thesis by (auto simp: applyTemplate_compile_error)
  next
    assume "\<exists>compiler i m s e. template t = Inr compiler \<and> lastUserAt h (slots h context) i \<and>
            msg_at h (slots h context ! i) = Some m \<and> content m = JStr s \<and> compiler s = Inl e"
    then obtain compiler i m s e where c: "template t = Inr compiler"
      and target: "lastUserAt h (slots h context) i" "msg_at h (slots h context ! i) = Some m"
      and s: "content m = JStr s" and thrown: "compiler s = Inl e"
      by blast
    from applyTemplate_clone_target [of template t compiler h "context" i m, OF c target] s thrown
    show ?thesis by simp
  qed
qed

theorem failure_containment_witness:
  "(\<exists>h' c'. doProcess failingCompile \<lparr>inputTemplate = Some ''<% broken''\<rparr>
               (conversation (JStr ''hi'')) callerContext = Inr (h', c') \<and>
      slots h' c' = [0, 1, 2, 3] \<and>
      message_objs h' = message_objs (conversation (JStr ''hi'')) \<and>
      metadataOf h' c' processedKey = Some (JNum 0) \<and> isMarkedExecuted h' c') \<and>
   (\<exists>h' c'. doProcess failingApply \<lparr>inputTemplate = Some ''{{text}} <%= user %>''\<rparr>
               (conversation (JStr ''hi'')) callerContext = Inr (h', c') \<and>
      slots h' c' = [0, 1, 2, 3] \<and>
      message_objs h' = message_objs (conversation (JStr ''hi'')) \<and>
      metadataOf h' c' processedKey = Some (JNum 0) \<and> isMarkedExecuted h' c')"
proof
  have "\<exists>e. failingCompile ''<% broken'' = Inl e" by (simp add: failingCompile_def)
  then have "(\<exists>e. failingCompile ''<% broken'' = Inl e) \<or>
         (\<exists>compiler i m s e. failingCompile ''<% broken'' = Inr compiler \<and>
            lastUserAt (conversation (JStr ''hi'')) (slots (conversation (JStr ''hi'')) callerContext) i \<and>
            msg_at (conversation (JStr ''hi'')) (slots (conversation (JStr ''hi'')) callerContext ! i) = Some m \<and>
            content m = JStr s \<and> compiler s = Inl e)" ..
  from failure_containment [where template = failingCompile and t = "''<% broken''"
      and config = "\<lparr>inputTemplate = Some ''<% broken''\<rparr>", OF _ _ this]
  show "\<exists>h' c'. doProcess failingCompile \<lparr>inputTemplate = Some ''<% broken''\<rparr>
               (conversation (JStr ''hi'')) callerContext = Inr (h', c') \<and>
      slots h' c' = [0, 1, 2, 3] \<and>
      message_objs h' = message_objs (conversation (JStr ''hi'')) \<and>
      metadataOf h' c' processedKey = Some (JNum 0) \<and> isMarkedExecuted h' c'"
    by (simp add: conversation_target(3)) blast
next
  let ?h = "conversation (JStr ''hi'')"
  let ?t = "''{{text}} <%= user %>''"
  have "failingApply ?t = Inr (\<lambda>s. Inl (JsError ''ReferenceError'')) \<and>
      lastUserAt ?h (slots ?h callerContext) 3 \<and>
      msg_at ?h (slots ?h callerContext ! 3) = Some (userMessage ''m3'' (JStr ''hi'')) \<and>
      content (userMessage ''m3'' (JStr ''hi'')) = JStr ''hi'' \<and>
      (\<lambda>s. Inl (JsError ''ReferenceError'')) ''hi'' = (Inl (JsError ''ReferenceError'') :: js_error + string)"
    using conversation_target(1,2) [of "JStr ''hi''"] by (simp add: failingApply_def userMessage_def)
  then have "(\<exists>e. failingApply ?t = Inl e) \<or>
         (\<exists>compiler i m s e. failingApply ?t = Inr compiler \<and>
            lastUserAt ?h (slots ?h callerContext) i \<and>
            msg_at ?h (slots ?h callerContext ! i) = Some m \<and>
            content m = JStr s \<and> compiler s = Inl e)" by blast
  from failure_containment [where template = failingApply and t = ?t
      and config = "\<lparr>inputTemplate = Some ?t\<rparr>", OF _ _ this]
  show "\<exists>h' c'. doProcess failingApply \<lparr>inputTemplate = Some ?t\<rparr> ?h callerContext = Inr (h', c') \<and>
      slots h' c' = [0, 1, 2, 3] \<and>
      message_objs h' = message_objs ?h \<and>
      metadataOf h' c' processedKey = Some (JNum 0) \<and> isMarkedExecuted h' c'"
    by (simp add: conversation_target(3)) blast
qed

text \<open>
  C4 (disabled stage). The claim says that without a template the messages are returned
  as they were and a processed count of 0 is recorded. The first half holds; the second
  does not: the guard of line 32 returns \<^verbatim>\<open>markAsExecuted(clonedContext)\<close> at once,
  before the assignment to \<^verbatim>\<open>metadata.inputTemplateProcessed\<close> of line 89. For the
  example conversation and no template, the returned metadata holds the entry of the
  input and the marker, and nothing under the key of the count.
\<close>

theorem disabled_count_not_recorded:
  "doProcess textTemplate \<lparr>inputTemplate = None\<rparr> (conversation (JStr ''hi'')) callerContext =
     Inr ((conversation (JStr ''hi''))
            \<lparr>array_objs := [[0, 1, 2, 3], [0, 1, 2, 3]],
             metadata_objs := [[''traceId'' \<mapsto> JStr ''t1''],
                               [''traceId'' \<mapsto> JStr ''t1'', processor_name \<mapsto> JBool True]]\<rparr>,
          \<lparr>messages = 1, metadata = 1\<rparr>) \<and>
   metadataOf ((conversation (JStr ''hi''))
            \<lparr>array_objs := [[0, 1, 2, 3], [0, 1, 2, 3]],
             metadata_objs := [[''traceId'' \<mapsto> JStr ''t1''],
                               [''traceId'' \<mapsto> JStr ''t1'', processor_name \<mapsto> JBool True]]\<rparr>)
      \<lparr>messages = 1, metadata = 1\<rparr> processedKey = None"
  by (simp add: doProcess_def cloneContext_eq store_defs example_defs)

text \<open>
  C4, as the code has it. When no template is configured (it is absent or empty),
  \<^verbatim>\<open>doProcess\<close> returns \<^verbatim>\<open>markAsExecuted\<close> of the working copy: the message
  slots, the message objects and the messages are those of the input, the metadata of
  the returned context is the metadata of the input with the marker added, and the entry
  under the key of the count is whatever the input had there; no count is written.
\<close>

theorem disabled_noop:
  assumes "\<not> templateConfigured config"
  shows "\<exists>h' c'. doProcess template config h context = Inr (h', c') \<and>
          (h', c') = case_prod markAsExecuted (cloneContext h context) \<and>
          slots h' c' = slots h context \<and>
          message_objs h' = message_objs h \<and>
          messagesOf h' c' = messagesOf h context \<and>
          metadataOf h' c' = (metadataOf h context)(processor_name \<mapsto> JBool True) \<and>
          metadataOf h' c' processedKey = metadataOf h context processedKey"
proof -
  from doProcess_skipped [OF assms, of template h "context"]
  obtain h' c' where res: "doProcess template config h context = Inr (h', c')"
    and mark: "(h', c') = case_prod markAsExecuted (cloneContext h context)"
    and c': "c' = context\<lparr>messages := length (array_objs h), metadata := length (metadata_objs h)\<rparr>"
    and objs: "message_objs h' = message_objs h"
    and arrs: "array_objs h' = array_objs h @ [slots h context]"
    and mds: "metadata_objs h' = metadata_objs h @ [(metadataOf h context)(processor_name \<mapsto> JBool True)]"
    by blast
  have refs: "messages c' = length (array_objs h)" "metadata c' = length (metadata_objs h)"
    using c' by simp_all
  have sl: "slots h' c' = slots h context" using refs(1) arrs by (rule obs_slots)
  have md: "metadataOf h' c' = (metadataOf h context)(processor_name \<mapsto> JBool True)"
    using refs(2) mds by (rule obs_metadata)
  have "messagesOf h' c' = messagesOf h context"
    by (simp add: messagesOf_def sl same_objs_msg_at [OF objs])
  moreover have "metadataOf h' c' processedKey = metadataOf h context processedKey"
    by (simp add: md key_distinct)
  ultimately show ?thesis using res mark sl objs md by blast
qed

theorem disabled_noop_witness:
  "\<exists>h' c'. doProcess textTemplate \<lparr>inputTemplate = None\<rparr> (conversation (JStr ''hi'')) callerContext
        = Inr (h', c') \<and>
     slots h' c' = [0, 1, 2, 3] \<and>
     message_objs h' = message_objs (conversation (JStr ''hi'')) \<and>
     metadataOf h' c' = [''traceId'' \<mapsto> JStr ''t1'', processor_name \<mapsto> JBool True] \<and>
     metadataOf h' c' processedKey = None"
proof -
  have "\<not> templateConfigured \<lparr>inputTemplate = None\<rparr>" by (simp add: templateConfigured_def)
  from disabled_noop [OF this, of textTemplate "conversation (JStr ''hi'')" callerContext]
  obtain h' c' where "doProcess textTemplate \<lparr>inputTemplate = None\<rparr> (conversation (JStr ''hi'')) callerContext
        = Inr (h', c')"
    "slots h' c' = slots (conversation (JStr ''hi'')) callerContext"
    "message_objs h' = message_objs (conversation (JStr ''hi''))"
    "metadataOf h' c' = (metadataOf (conversation (JStr ''hi'')) callerContext)(processor_name \<mapsto> JBool True)"
    "metadataOf h' c' processedKey = metadataOf (conversation (JStr ''hi'')) callerContext processedKey"
    by blast
  moreover have "metadataOf (conversation (JStr ''hi'')) callerContext = [''traceId'' \<mapsto> JStr ''t1'']"
    by (simp add: metadataOf_def meta_at_def conversation_def callerContext_def)
  moreover have "[''traceId'' \<mapsto> JStr ''t1''] processedKey = None"
    by (simp add: processedKey_def)
  ultimately show ?thesis by (simp add: conversation_target(3))
qed

text \<open>
  C5 (the original context is not mutated). For a context whose references are valid,
  after any run of \<^verbatim>\<open>doProcess\<close> the caller's context shows, in the returned store,
  the same message slots, the same messages and the same metadata as before the call;
  the returned context refers to another array and another metadata object, and every
  array, metadata object and message object of the original store is unchanged.
\<close>

theorem original_context_immutable:
  assumes "validContext h context"
  shows "\<exists>h' c'. doProcess template config h context = Inr (h', c') \<and>
     slots h' context = slots h context \<and>
     messagesOf h' context = messagesOf h context \<and>
     metadataOf h' context = metadataOf h context \<and>
     messages c' \<noteq> messages context \<and> metadata c' \<noteq> metadata context \<and>
     (\<forall>a<length (array_objs h). arr_at h' a = arr_at h a) \<and>
     (\<forall>a<length (metadata_objs h). meta_at h' a = meta_at h a) \<and>
     (\<forall>r<length (message_objs h). msg_at h' r = msg_at h r)"
proof -
  obtain h' c' xs ms md where
    res: "doProcess template config h context = Inr (h', c')"
    and refs: "messages c' = length (array_objs h)" "metadata c' = length (metadata_objs h)"
    and arrs: "array_objs h' = array_objs h @ [xs]"
    and objs: "message_objs h' = message_objs h @ ms"
    and mds: "metadata_objs h' = metadata_objs h @ [md]"
    by (rule doProcess_summary)
  from assms have valid: "messages context < length (array_objs h)"
    "metadata context < length (metadata_objs h)"
    "\<And>r. r \<in> set (slots h context) \<Longrightarrow> r < length (message_objs h)"
    by (auto simp: validContext_def slots_def)
  have arr: "\<forall>a<length (array_objs h). arr_at h' a = arr_at h a"
    using arrs by (simp add: old_arr_at)
  have meta: "\<forall>a<length (metadata_objs h). meta_at h' a = meta_at h a"
    using mds by (simp add: old_meta_at)
  have msg: "\<forall>r<length (message_objs h). msg_at h' r = msg_at h r"
    using objs by (simp add: old_msg_at)
  have sl: "slots h' context = slots h context"
    using arr valid(1) by (simp add: slots_def)
  have "messagesOf h' context = messagesOf h context"
    unfolding messagesOf_def sl using msg valid(3) by simp
  moreover have "metadataOf h' context = metadataOf h context"
    using meta valid(2) by (simp add: metadataOf_def)
  moreover have "messages c' \<noteq> messages context" "metadata c' \<noteq> metadata context"
    using refs valid(1,2) by simp_all
  ultimately show ?thesis using res sl arr meta msg by blast
qed

theorem original_context_immutable_witness:
  "\<exists>h' c'. doProcess textTemplate \<lparr>inputTemplate = Some ''Context: {{text}}''\<rparr>
               (conversation (JStr ''hi'')) callerContext = Inr (h', c') \<and>
     slots h' callerContext = [0, 1, 2, 3] \<and>
     messagesOf h' callerContext =
       [Some systemMessage, Some (userMessage ''m1'' (JStr ''first'')), Some assistantMessage,
        Some (userMessage ''m3'' (JStr ''hi''))] \<and>
     metadataOf h' callerContext = [''traceId'' \<mapsto> JStr ''t1''] \<and>
     messages c' \<noteq> 0 \<and> metadata c' \<noteq> 0"
proof -
  let ?h = "conversation (JStr ''hi'')"
  from original_context_immutable [OF conversation_valid, of textTemplate
      "\<lparr>inputTemplate = Some ''Context: {{text}}''\<rparr>" "JStr ''hi''"]
  obtain h' c' where
    "doProcess textTemplate \<lparr>inputTemplate = Some ''Context: {{text}}''\<rparr> ?h callerContext = Inr (h', c')"
    "slots h' callerContext = slots ?h callerContext"
    "messagesOf h' callerContext = messagesOf ?h callerContext"
    "metadataOf h' callerContext = metadataOf ?h callerContext"
    "messages c' \<noteq> messages callerContext" "metadata c' \<noteq> metadata callerContext"
    by blast
  moreover have "messagesOf ?h callerContext =
       [Some systemMessage, Some (userMessage ''m1'' (JStr ''first'')), Some assistantMessage,
        Some (userMessage ''m3'' (JStr ''hi''))]"
    by (simp add: messagesOf_def conversation_target(3)) (simp add: msg_at_def conversation_def)
  moreover have "metadataOf ?h callerContext = [''traceId'' \<mapsto> JStr ''t1'']"
    by (simp add: metadataOf_def meta_at_def conversation_def callerContext_def)
  moreover have "messages callerContext = 0" "metadata callerContext = 0"
    by (simp_all add: callerContext_def)
  ultimately show ?thesis by (simp add: conversation_target(3))
qed

text \<open>
  C6 (identity-preserving no-op and stability). When the compiled template, applied to
  the string content of the last user message, returns that same string, the slot keeps
  its reference, no message object is created, and the processed count is 0. And for an
  engine that compiles \<^verbatim>\<open>no placeholders here\<close> to the function that always returns
  this string: after one run on a valid context the last user message has this content,
  and a second run, on the result of the first, changes no slot, creates no message
  object and records the processed count 0.
\<close>

theorem identity_preserving_noop:
  assumes "lastUserAt h (slots h context) i"
    and "msg_at h (slots h context ! i) = Some m"
    and "content m = JStr s"
  shows "(inputTemplate config = Some t \<and> t \<noteq> '''' \<and> template t = Inr compiler \<and>
          compiler s = Inr s \<longrightarrow>
            (\<exists>h' c'. doProcess template config h context = Inr (h', c') \<and>
               slots h' c' = slots h context \<and>
               message_objs h' = message_objs h \<and>
               metadataOf h' c' processedKey = Some (JNum 0))) \<and>
         (validContext h context \<and> template ''no placeholders here'' = Inr fixed \<and>
          (\<forall>x. fixed x = Inr ''no placeholders here'') \<longrightarrow>
            (\<exists>h1 c1 h2 c2.
               doProcess template \<lparr>inputTemplate = Some ''no placeholders here''\<rparr> h context
                 = Inr (h1, c1) \<and>
               msg_at h1 (slots h1 c1 ! i) = Some (m\<lparr>content := JStr ''no placeholders here''\<rparr>) \<and>
               doProcess template \<lparr>inputTemplate = Some ''no placeholders here''\<rparr> h1 c1
                 = Inr (h2, c2) \<and>
               slots h2 c2 = slots h1 c1 \<and>
               message_objs h2 = message_objs h1 \<and>
               metadataOf h2 c2 processedKey = Some (JNum 0)))"
proof (intro conjI impI)
  assume "inputTemplate config = Some t \<and> t \<noteq> '''' \<and> template t = Inr compiler \<and>
          compiler s = Inr s"
  then have "inputTemplate config = Some t" "t \<noteq> ''''" "template t = Inr compiler"
    "compiler s = Inr s" by simp_all
  from doProcess_identity [where template = template and compiler = compiler, OF this(1,2,3) assms this(4)]
  show "\<exists>h' c'. doProcess template config h context = Inr (h', c') \<and>
               slots h' c' = slots h context \<and>
               message_objs h' = message_objs h \<and>
               metadataOf h' c' processedKey = Some (JNum 0)"
    by blast
next
  let ?tpl = "''no placeholders here''"
  let ?config = "\<lparr>inputTemplate = Some ?tpl\<rparr>"
  let ?m1 = "m\<lparr>content := JStr ?tpl\<rparr>"
  assume "validContext h context \<and> template ?tpl = Inr fixed \<and> (\<forall>x. fixed x = Inr ?tpl)"
  then have valid: "\<forall>r\<in>set (slots h context). r < length (message_objs h)"
    and compiled: "template ?tpl = Inr fixed" and fixed: "\<And>x. fixed x = Inr ?tpl"
    by (simp_all add: validContext_def slots_def)
  have cfg: "inputTemplate ?config = Some ?tpl" "?tpl \<noteq> ''''" by simp_all
  have first: "\<exists>h1 c1. doProcess template ?config h context = Inr (h1, c1) \<and>
      lastUserAt h1 (slots h1 c1) i \<and> msg_at h1 (slots h1 c1 ! i) = Some ?m1"
  proof (cases "s = ?tpl")
    case True
    then have "fixed s = Inr s" "?m1 = m" using fixed [of s] assms(3) by simp_all
    from doProcess_identity [where template = template and compiler = fixed,
        OF cfg compiled assms this(1)]
    obtain h1 c1 where res: "doProcess template ?config h context = Inr (h1, c1)"
      and same: "slots h1 c1 = slots h context" "message_objs h1 = message_objs h"
      by blast
    from target_after_no_change [OF assms(1,2) same(2,1)] res \<open>?m1 = m\<close>
    show ?thesis by auto
  next
    case False
    then have out: "fixed s = Inr ?tpl" "?tpl \<noteq> s" using fixed [of s] by simp_all
    from doProcess_applied [where template = template and compiler = fixed,
        OF cfg compiled assms out]
    obtain h1 c1 where res: "doProcess template ?config h context = Inr (h1, c1)"
      and c1: "c1 = context\<lparr>messages := length (array_objs h), metadata := length (metadata_objs h)\<rparr>"
      and objs: "message_objs h1 = message_objs h @ [?m1]"
      and arrs: "array_objs h1 = array_objs h @ [(slots h context)[i := length (message_objs h)]]"
      by blast
    have "messages c1 = length (array_objs h)" using c1 by simp
    then have sl: "slots h1 c1 = (slots h context)[i := length (message_objs h)]"
      using arrs by (rule obs_slots)
    from target_after_replacement [OF valid assms(1,2) objs sl] res
    show ?thesis by auto
  qed
  then obtain h1 c1 where res1: "doProcess template ?config h context = Inr (h1, c1)"
    and target1: "lastUserAt h1 (slots h1 c1) i" "msg_at h1 (slots h1 c1 ! i) = Some ?m1"
    by blast
  have "content ?m1 = JStr ?tpl" "fixed ?tpl = Inr ?tpl" using fixed by simp_all
  from doProcess_identity [where template = template and compiler = fixed,
      OF cfg compiled target1 this]
  obtain h2 c2 where "doProcess template ?config h1 c1 = Inr (h2, c2)"
    "slots h2 c2 = slots h1 c1" "message_objs h2 = message_objs h1"
    "metadataOf h2 c2 processedKey = Some (JNum 0)"
    by blast
  with res1 target1(2) show "\<exists>h1 c1 h2 c2.
               doProcess template ?config h context = Inr (h1, c1) \<and>
               msg_at h1 (slots h1 c1 ! i) = Some ?m1 \<and>
               doProcess template ?config h1 c1 = Inr (h2, c2) \<and>
               slots h2 c2 = slots h1 c1 \<and>
               message_objs h2 = message_objs h1 \<and>
               metadataOf h2 c2 processedKey = Some (JNum 0)"
    by blast
qed

theorem identity_preserving_noop_witness:
  "(\<exists>h' c'. doProcess textTemplate \<lparr>inputTemplate = Some ''{{ text }}''\<rparr>
               (conversation (JStr ''hello'')) callerContext = Inr (h', c') \<and>
      slots h' c' = [0, 1, 2, 3] \<and>
      message_objs h' = message_objs (conversation (JStr ''hello'')) \<and>
      metadataOf h' c' processedKey = Some (JNum 0)) \<and>
   (\<exists>h1 c1 h2 c2.
      doProcess textTemplate \<lparr>inputTemplate = Some ''no placeholders here''\<rparr>
        (conversation (JStr ''hello'')) callerContext = Inr (h1, c1) \<and>
      msg_at h1 (slots h1 c1 ! 3) = Some (userMessage ''m3'' (JStr ''no placeholders here'')) \<and>
      doProcess textTemplate \<lparr>inputTemplate = Some ''no placeholders here''\<rparr> h1 c1 = Inr (h2, c2) \<and>
      slots h2 c2 = slots h1 c1 \<and>
      message_objs h2 = message_objs h1 \<and>
      metadataOf h2 c2 processedKey = Some (JNum 0))"
proof -
  let ?h = "conversation (JStr ''hello'')"
  have c: "content (userMessage ''m3'' (JStr ''hello'')) = JStr ''hello''"
    by (simp add: userMessage_def)
  note th = identity_preserving_noop [OF conversation_target(1,2) c,
      where template = textTemplate and config = "\<lparr>inputTemplate = Some ''{{ text }}''\<rparr>"
        and t = "''{{ text }}''" and compiler = "\<lambda>s. Inr (interpolateFrom 0 ''{{ text }}'' s)"
        and fixed = "\<lambda>s. Inr (interpolateFrom 0 ''no placeholders here'' s)"]
  have "interpolateFrom 0 ''{{ text }}'' ''hello'' = ''hello''"
    by (simp add: matchPlaceholder_def isSpace_def)
  then have a: "inputTemplate \<lparr>inputTemplate = Some ''{{ text }}''\<rparr> = Some ''{{ text }}'' \<and>
      ''{{ text }}'' \<noteq> '''' \<and>
      textTemplate ''{{ text }}'' = Inr (\<lambda>s. Inr (interpolateFrom 0 ''{{ text }}'' s)) \<and>
      (\<lambda>s. Inr (interpolateFrom 0 ''{{ text }}'' s)) ''hello'' = Inr ''hello''"
    by (simp add: textTemplate_def)
  have "\<forall>x. interpolateFrom 0 ''no placeholders here'' x = ''no placeholders here''"
    by (simp add: matchPlaceholder_def isSpace_def)
  then have b: "validContext ?h callerContext \<and>
      textTemplate ''no placeholders here'' = Inr (\<lambda>s. Inr (interpolateFrom 0 ''no placeholders here'' s)) \<and>
      (\<forall>x. (\<lambda>s. Inr (interpolateFrom 0 ''no placeholders here'' s)) x = Inr ''no placeholders here'')"
    by (simp add: textTemplate_def conversation_valid)
  have m: "(userMessage ''m3'' (JStr ''hello''))\<lparr>content := JStr ''no placeholders here''\<rparr> =
      userMessage ''m3'' (JStr ''no placeholders here'')"
    by (simp add: userMessage_def)
  from th a b show ?thesis
    unfolding m conversation_target(3) by blast
qed

text \<open>
  C8 (non-text safety). With a template configured, if the content of the last user
  message is not a string, then \<^verbatim>\<open>doProcess\<close> returns normally, every slot, message
  object and message is as in the input, and the processed count is recorded as 0,
  whatever the engine does.
\<close>

theorem non_text_safety:
  assumes "inputTemplate config = Some t" "t \<noteq> ''''"
    and "lastUserAt h (slots h context) i"
    and "msg_at h (slots h context ! i) = Some m"
    and "\<forall>s. content m \<noteq> JStr s"
  shows "\<exists>h' c'. doProcess template config h context = Inr (h', c') \<and>
          (\<exists>h2. (h', c') = markAsExecuted h2 c') \<and>
          slots h' c' = slots h context \<and>
          message_objs h' = message_objs h \<and>
          messagesOf h' c' = messagesOf h context \<and>
          metadataOf h' c' processedKey = Some (JNum 0) \<and>
          isMarkedExecuted h' c'"
proof (rule doProcess_kept_shows [OF assms(1,2)])
  let ?h0 = "fst (cloneContext h context)" and ?c0 = "snd (cloneContext h context)"
  show "(\<exists>e. applyTemplate template t ?h0 ?c0 = Inl e) \<or>
      applyTemplate template t ?h0 ?c0 = Inr (?h0, 0)"
  proof (cases "template t")
    case (Inl e)
    then show ?thesis by (simp add: applyTemplate_compile_error)
  next
    case (Inr f)
    have "asString (content m) = None" using assms(5) by (simp add: asString_None)
    with applyTemplate_clone_target [of template t f h "context" i m, OF Inr assms(3,4)]
    show ?thesis by simp
  qed
qed

theorem non_text_safety_witness:
  "\<exists>h' c'. doProcess textTemplate \<lparr>inputTemplate = Some ''Context: {{text}}''\<rparr>
       (conversation (JArr [JObj [(''type'', JStr ''text''), (''text'', JStr ''hi'')]])) callerContext
         = Inr (h', c') \<and>
     slots h' c' = [0, 1, 2, 3] \<and>
     message_objs h' =
       message_objs (conversation (JArr [JObj [(''type'', JStr ''text''), (''text'', JStr ''hi'')]])) \<and>
     metadataOf h' c' processedKey = Some (JNum 0)"
proof -
  let ?c = "JArr [JObj [(''type'', JStr ''text''), (''text'', JStr ''hi'')]]"
  have "\<forall>s. content (userMessage ''m3'' ?c) \<noteq> JStr s" by (simp add: userMessage_def)
  from non_text_safety [where config = "\<lparr>inputTemplate = Some ''Context: {{text}}''\<rparr>"
      and template = textTemplate, OF _ _ conversation_target(1,2) this]
  show ?thesis by (simp add: conversation_target(3)) blast
qed

text \<open>
  C9 (execution marking and metadata). The claim says that on every path, the disabled
  one included, the metadata of the returned context gains the processed count. On the
  disabled path it does not: for a conversation with empty metadata and no template,
  the returned metadata holds the marker only.
\<close>

theorem disabled_path_writes_no_count:
  "doProcess failingCompile \<lparr>inputTemplate = None\<rparr> quietConversation callerContext =
     Inr (quietConversation
            \<lparr>array_objs := [[0, 1], [0, 1]],
             metadata_objs := [Map.empty, [processor_name \<mapsto> JBool True]]\<rparr>,
          \<lparr>messages = 1, metadata = 1\<rparr>) \<and>
   metadataOf (quietConversation
            \<lparr>array_objs := [[0, 1], [0, 1]],
             metadata_objs := [Map.empty, [processor_name \<mapsto> JBool True]]\<rparr>)
      \<lparr>messages = 1, metadata = 1\<rparr> = [processor_name \<mapsto> JBool True] \<and>
   [processor_name \<mapsto> JBool True] processedKey = None"
  by (simp add: doProcess_def cloneContext_eq store_defs quietConversation_def example_defs)

text \<open>
  C9, as the code has it. On every path \<^verbatim>\<open>doProcess\<close> returns the result of
  \<^verbatim>\<open>markAsExecuted\<close>, applied last, to the working copy. At that point the metadata
  of the working copy is the metadata of the input with the processed count, 0 or 1,
  written under the key of the stage when a template is configured, and exactly the
  metadata of the input when none is; \<^verbatim>\<open>markAsExecuted\<close> then adds its marker and
  nothing else.
\<close>

theorem execution_marking:
  "\<exists>h' c' h2 n. doProcess template config h context = Inr (h', c') \<and>
     (h', c') = markAsExecuted h2 c' \<and> n \<le> (1::nat) \<and>
     metadataOf h2 c' =
       (if templateConfigured config
        then (metadataOf h context)(processedKey \<mapsto> JNum (int n))
        else metadataOf h context) \<and>
     metadataOf h' c' = (metadataOf h2 c')(processor_name \<mapsto> JBool True)"
proof (cases rule: doProcess_cases [of config _ template h "context"])
  case skipped
  from doProcess_skipped [OF skipped, of template h "context"]
  obtain h' c' h2 where res: "doProcess template config h context = Inr (h', c')"
    and mark: "(h', c') = markAsExecuted h2 c'" "metadataOf h2 c' = metadataOf h context"
    and c': "c' = context\<lparr>messages := length (array_objs h), metadata := length (metadata_objs h)\<rparr>"
    and mds: "metadata_objs h' = metadata_objs h @ [(metadataOf h context)(processor_name \<mapsto> JBool True)]"
    by blast
  have "metadata c' = length (metadata_objs h)" using c' by simp
  then have "metadataOf h' c' = (metadataOf h context)(processor_name \<mapsto> JBool True)"
    using mds by (rule obs_metadata)
  with res mark skipped show ?thesis by (intro exI [of _ h'] exI [of _ c'] exI [of _ h2] exI [of _ 0]) simp
next
  case (kept t)
  from doProcess_kept [OF kept]
  obtain h' c' h2 where res: "doProcess template config h context = Inr (h', c')"
    and mark: "(h', c') = markAsExecuted h2 c'"
      "metadataOf h2 c' = (metadataOf h context)(processedKey \<mapsto> JNum 0)"
    and c': "c' = context\<lparr>messages := length (array_objs h), metadata := length (metadata_objs h)\<rparr>"
    and mds: "metadata_objs h' = metadata_objs h @
        [(metadataOf h context)(processedKey \<mapsto> JNum 0, processor_name \<mapsto> JBool True)]"
    by blast
  have cfg: "templateConfigured config" using kept(1,2) by (simp add: templateConfigured_Some)
  have "metadata c' = length (metadata_objs h)" using c' by simp
  then have "metadataOf h' c' =
      (metadataOf h context)(processedKey \<mapsto> JNum 0, processor_name \<mapsto> JBool True)"
    using mds by (rule obs_metadata)
  with res mark cfg show ?thesis by (intro exI [of _ h'] exI [of _ c'] exI [of _ h2] exI [of _ 0]) simp
next
  case (applied t compiler i m s out)
  from doProcess_applied [where template = template and compiler = compiler, OF applied]
  obtain h' c' h2 where res: "doProcess template config h context = Inr (h', c')"
    and mark: "(h', c') = markAsExecuted h2 c'"
      "metadataOf h2 c' = (metadataOf h context)(processedKey \<mapsto> JNum 1)"
    and c': "c' = context\<lparr>messages := length (array_objs h), metadata := length (metadata_objs h)\<rparr>"
    and mds: "metadata_objs h' = metadata_objs h @
        [(metadataOf h context)(processedKey \<mapsto> JNum 1, processor_name \<mapsto> JBool True)]"
    by blast
  have cfg: "templateConfigured config" using applied(1,2) by (simp add: templateConfigured_Some)
  have "metadata c' = length (metadata_objs h)" using c' by simp
  then have "metadataOf h' c' =
      (metadataOf h context)(processedKey \<mapsto> JNum 1, processor_name \<mapsto> JBool True)"
    using mds by (rule obs_metadata)
  with res mark cfg show ?thesis by (intro exI [of _ h'] exI [of _ c'] exI [of _ h2] exI [of _ 1]) simp
qed

text \<open>
  C10 (the empty template is the disabled stage). With the empty string as template,
  \<^verbatim>\<open>doProcess\<close> takes the early return: the result is \<^verbatim>\<open>markAsExecuted\<close> of the
  working copy, the same for every engine (nothing is compiled) and the same as with
  no template at all; no slot and no message object changes, and the entry under the
  key of the count is the one of the input: the count is not written.
\<close>

theorem empty_template_is_disabled:
  "doProcess template \<lparr>inputTemplate = Some ''''\<rparr> h context =
     Inr (case_prod markAsExecuted (cloneContext h context)) \<and>
   doProcess template \<lparr>inputTemplate = Some ''''\<rparr> h context =
     doProcess template' \<lparr>inputTemplate = None\<rparr> h context \<and>
   (\<exists>h' c'. doProcess template \<lparr>inputTemplate = Some ''''\<rparr> h context = Inr (h', c') \<and>
      slots h' c' = slots h context \<and>
      message_objs h' = message_objs h \<and>
      metadataOf h' c' processedKey = metadataOf h context processedKey)"
proof -
  have off: "\<not> templateConfigured \<lparr>inputTemplate = Some ''''\<rparr>"
    "\<not> templateConfigured \<lparr>inputTemplate = None\<rparr>"
    by (simp_all add: templateConfigured_def)
  have early: "doProcess template \<lparr>inputTemplate = Some ''''\<rparr> h context =
     Inr (case_prod markAsExecuted (cloneContext h context))"
    and absent: "doProcess template' \<lparr>inputTemplate = None\<rparr> h context =
     Inr (case_prod markAsExecuted (cloneContext h context))"
    using off by (simp_all add: doProcess_disabled)
  from doProcess_skipped [OF off(1), of template h "context"]
  obtain h' c' where res: "doProcess template \<lparr>inputTemplate = Some ''''\<rparr> h context = Inr (h', c')"
    and c': "c' = context\<lparr>messages := length (array_objs h), metadata := length (metadata_objs h)\<rparr>"
    and objs: "message_objs h' = message_objs h"
    and arrs: "array_objs h' = array_objs h @ [slots h context]"
    and mds: "metadata_objs h' = metadata_objs h @ [(metadataOf h context)(processor_name \<mapsto> JBool True)]"
    by blast
  have refs: "messages c' = length (array_objs h)" "metadata c' = length (metadata_objs h)"
    using c' by simp_all
  have sl: "slots h' c' = slots h context" using refs(1) arrs by (rule obs_slots)
  have "metadataOf h' c' = (metadataOf h context)(processor_name \<mapsto> JBool True)"
    using refs(2) mds by (rule obs_metadata)
  then have "metadataOf h' c' processedKey = metadataOf h context processedKey"
    by (simp add: key_distinct)
  with res sl objs have "\<exists>h' c'. doProcess template \<lparr>inputTemplate = Some ''''\<rparr> h context = Inr (h', c') \<and>
      slots h' c' = slots h context \<and>
      message_objs h' = message_objs h \<and>
      metadataOf h' c' processedKey = metadataOf h context processedKey"
    by blast
  moreover have "doProcess template \<lparr>inputTemplate = Some ''''\<rparr> h context =
     doProcess template' \<lparr>inputTemplate = None\<rparr> h context"
    by (simp only: early absent)
  ultimately show ?thesis using early by (intro conjI)
qed

end
